theory Spec2Isabelle
  imports Main "HOL-Library.Word"
begin

section \<open>Values, errors and checked arithmetic\<close>

text \<open>
  The pool engine is the Solidity contracts \<open>NebuPool\<close>, \<open>NebuSwap\<close> and
  \<open>NebulaLiquidityToken\<close>. A \<open>uint256\<close> is a 256-bit word, an \<open>address\<close> a
  160-bit word. A transaction that reverts leaves no trace, so every operation returns
  either an error or the state it committed.
\<close>

type_synonym uint256 = "256 word"
type_synonym address = "160 word"

text \<open>
  One constructor per way a call can revert:
  \<^item> \<open>ZeroAmount\<close>: "AmountIn must be greater than 0", "Amount must be greater than 0";
  \<^item> \<open>InvalidAsset\<close>: "Invalid fromToken", "Tokens need to be pairs of this liquidity pool";
  \<^item> \<open>InsufficientBalanceFrom\<close>: "Insufficient balance of tokenFrom";
  \<^item> \<open>InsufficientBalanceTo\<close>: "Insufficient balance of tokenTo";
  \<^item> \<open>SlippageExceeded\<close>: "Swap does not preserve constant formula", the check of the
    requested output against the computed one;
  \<^item> \<open>InvariantViolation\<close>: the same message, at the check of the product after the trade;
  \<^item> \<open>InsufficientInitialLiquidity\<close>: "Insufficient liquidity created";
  \<^item> \<open>ConstantNotUpdated\<close>: "Constant formula not updated";
  \<^item> \<open>NoLiquidity\<close>: "No liquidity available";
  \<^item> \<open>InsufficientShares\<close>: the liquidity token refuses to burn more than the holder has;
  \<^item> \<open>Unauthorized\<close>: the liquidity token refuses a caller without the admin role;
  \<^item> \<open>ArithmeticError\<close>: overflow or underflow of checked \<open>uint256\<close> arithmetic;
  \<^item> \<open>DivisionByZero\<close>: division by zero;
  \<^item> \<open>TransferError\<close>: an asset token reverts inside a transfer;
  \<^item> \<open>TransferFromFailed\<close>: "Transfer of token failed", the incoming transfer of a
    swap returned false;
  \<^item> \<open>TransferToFailed\<close>: "Transfer of token to failed", the outgoing transfer of a
    swap returned false;
  \<^item> \<open>IdenticalAsset\<close>: "Identical address is not allowed";
  \<^item> \<open>DuplicatePair\<close>: "Pair already exists".
\<close>

datatype error =
    ZeroAmount
  | InvalidAsset
  | InsufficientBalanceFrom
  | InsufficientBalanceTo
  | SlippageExceeded
  | InvariantViolation
  | InsufficientInitialLiquidity
  | ConstantNotUpdated
  | NoLiquidity
  | InsufficientShares
  | Unauthorized
  | ArithmeticError
  | DivisionByZero
  | TransferError
  | TransferFromFailed
  | TransferToFailed
  | IdenticalAsset
  | DuplicatePair

text \<open>Sequencing of calls that may revert: the first error ends the transaction.\<close>

definition and_then :: "error + 'a \<Rightarrow> ('a \<Rightarrow> error + 'b) \<Rightarrow> error + 'b" where
  "and_then m f = (case m of Inl e \<Rightarrow> Inl e | Inr x \<Rightarrow> f x)"

text \<open>
  Modelled from the spec: \<open>SafeMath.sol\<close> is imported by the pool and is not among the
  sources. Its \<open>add\<close>, \<open>sub\<close>, \<open>mul\<close> and \<open>div\<close> are the checked operations of
  Solidity 0.8 ("any overflow or underflow must fail the operation", never wrap); the
  built-in \<open>+\<close>, \<open>-\<close> and \<open>/\<close> of the pool are the same operations.
\<close>

definition checked_add :: "uint256 \<Rightarrow> uint256 \<Rightarrow> error + uint256" where
  "checked_add a b = (if unat a + unat b < 2 ^ 256 then Inr (a + b) else Inl ArithmeticError)"

definition checked_sub :: "uint256 \<Rightarrow> uint256 \<Rightarrow> error + uint256" where
  "checked_sub a b = (if b \<le> a then Inr (a - b) else Inl ArithmeticError)"

definition checked_mul :: "uint256 \<Rightarrow> uint256 \<Rightarrow> error + uint256" where
  "checked_mul a b = (if unat a * unat b < 2 ^ 256 then Inr (a * b) else Inl ArithmeticError)"

definition checked_div :: "uint256 \<Rightarrow> uint256 \<Rightarrow> error + uint256" where
  "checked_div a b = (if b = 0 then Inl DivisionByZero else Inr (a div b))"

text \<open>
  Modelled from the spec: \<open>Math.sqrt\<close> and \<open>Math.min\<close> belong to the OpenZeppelin
  library, which is not among the sources. The square root is the floor of the real one;
  \<open>sqrt_nat\<close> computes it digit by digit in base 2.
\<close>

fun sqrt_nat :: "nat \<Rightarrow> nat" where
  "sqrt_nat n =
     (if n < 2 then n
      else let r = 2 * sqrt_nat (n div 4)
           in if (r + 1) * (r + 1) \<le> n then r + 1 else r)"

declare sqrt_nat.simps [simp del]

definition Math_sqrt :: "uint256 \<Rightarrow> uint256" where
  "Math_sqrt a = word_of_nat (sqrt_nat (unat a))"

definition Math_min :: "uint256 \<Rightarrow> uint256 \<Rightarrow> uint256" where
  "Math_min a b = (if a < b then a else b)"

section \<open>Tokens\<close>

text \<open>
  Modelled from the spec: the ERC20 base contract of \<open>NebulaLiquidityToken\<close> and the
  tokens behind \<open>IERC20\<close> are not among the sources. A token is a total supply, a
  balance per holder and an allowance per owner and spender. \<open>transfer\<close> and
  \<open>transferFrom\<close> report success or failure: a transfer fails when the balance (or,
  for \<open>transferFrom\<close>, the allowance of the caller) is below the amount, and moves
  exactly the amount otherwise. A token that fails either reverts the whole call or
  changes nothing and returns false; \<open>failure_reverts\<close> says which. Minting increases
  the holder's balance and the total supply; burning fails \<open>InsufficientShares\<close> when
  the holder's balance is below the amount and decreases both otherwise.
\<close>

record erc20 =
  totalSupply :: uint256
  balanceOf :: "address \<Rightarrow> uint256"
  allowance :: "address \<Rightarrow> address \<Rightarrow> uint256"
  failure_reverts :: bool

definition erc20_fail :: "'a erc20_scheme \<Rightarrow> error + bool \<times> 'a erc20_scheme" where
  "erc20_fail t = (if failure_reverts t then Inl TransferError else Inr (False, t))"

definition erc20_transfer ::
  "erc20 \<Rightarrow> address \<Rightarrow> address \<Rightarrow> uint256 \<Rightarrow> error + bool \<times> erc20" where
  "erc20_transfer t from to amount =
     (if balanceOf t from < amount then erc20_fail t
      else let b1 = (balanceOf t)(from := balanceOf t from - amount);
               b2 = b1(to := b1 to + amount)
           in Inr (True, t\<lparr>balanceOf := b2\<rparr>))"

definition erc20_transferFrom ::
  "erc20 \<Rightarrow> address \<Rightarrow> address \<Rightarrow> address \<Rightarrow> uint256 \<Rightarrow> error + bool \<times> erc20" where
  "erc20_transferFrom t spender from to amount =
     (if allowance t from spender < amount then erc20_fail t
      else if balanceOf t from < amount then erc20_fail t
      else erc20_transfer
             (t\<lparr>allowance := (allowance t)
                   (from := (allowance t from)(spender := allowance t from spender - amount))\<rparr>)
             from to amount)"

definition erc20_mint :: "'a erc20_scheme \<Rightarrow> address \<Rightarrow> uint256 \<Rightarrow> error + 'a erc20_scheme" where
  "erc20_mint t to amount =
     and_then (checked_add (totalSupply t) amount) (\<lambda>ts.
       Inr (t\<lparr>totalSupply := ts, balanceOf := (balanceOf t)(to := balanceOf t to + amount)\<rparr>))"

definition erc20_burn :: "'a erc20_scheme \<Rightarrow> address \<Rightarrow> uint256 \<Rightarrow> error + 'a erc20_scheme" where
  "erc20_burn t from amount =
     (if balanceOf t from < amount then Inl InsufficientShares
      else Inr (t\<lparr>balanceOf := (balanceOf t)(from := balanceOf t from - amount),
                  totalSupply := totalSupply t - amount\<rparr>))"

text \<open>
  \<open>NebulaLiquidityToken\<close> is an ERC20 token with a name, a symbol and an admin: its
  constructor grants \<open>DEFAULT_ADMIN_ROLE\<close> to the deployer, and \<open>mint\<close> and \<open>burn\<close>
  are \<open>onlyRole(DEFAULT_ADMIN_ROLE)\<close>. Only a holder of the role can grant it, and the
  pool, which deploys its token, never does, so the role has the one holder \<open>admin\<close>.
\<close>

record NebulaLiquidityToken = erc20 +
  token_name :: string
  token_symbol :: string
  admin :: address

definition NebulaLiquidityToken_new :: "address \<Rightarrow> string \<Rightarrow> string \<Rightarrow> NebulaLiquidityToken" where
  "NebulaLiquidityToken_new deployer name symbol =
     \<lparr>totalSupply = 0, balanceOf = (\<lambda>_. 0), allowance = (\<lambda>_ _. 0),
      failure_reverts = True,
      token_name = name, token_symbol = symbol, admin = deployer\<rparr>"

definition mint ::
  "NebulaLiquidityToken \<Rightarrow> address \<Rightarrow> address \<Rightarrow> uint256 \<Rightarrow> error + NebulaLiquidityToken" where
  "mint t caller to amount =
     (if caller \<noteq> admin t then Inl Unauthorized else erc20_mint t to amount)"

definition burn ::
  "NebulaLiquidityToken \<Rightarrow> address \<Rightarrow> address \<Rightarrow> uint256 \<Rightarrow> error + NebulaLiquidityToken" where
  "burn t caller from amount =
     (if caller \<noteq> admin t then Inl Unauthorized else erc20_burn t from amount)"

text \<open>
  The asset tokens of the chain, by address. A call of \<open>transfer\<close> or \<open>transferFrom\<close>
  either reverts or returns the token's answer and the tokens after the call.
\<close>

type_synonym tokens = "address \<Rightarrow> erc20"

definition transfer ::
  "tokens \<Rightarrow> address \<Rightarrow> address \<Rightarrow> address \<Rightarrow> uint256 \<Rightarrow> error + bool \<times> tokens" where
  "transfer g token from to amount =
     and_then (erc20_transfer (g token) from to amount) (\<lambda>(ok, t). Inr (ok, g(token := t)))"

definition transferFrom ::
  "tokens \<Rightarrow> address \<Rightarrow> address \<Rightarrow> address \<Rightarrow> address \<Rightarrow> uint256
     \<Rightarrow> error + bool \<times> tokens" where
  "transferFrom g token spender from to amount =
     and_then (erc20_transferFrom (g token) spender from to amount)
       (\<lambda>(ok, t). Inr (ok, g(token := t)))"

text \<open>The answer of a transfer: true when the call returned true.\<close>

definition transfer_ok :: "error + bool \<times> tokens \<Rightarrow> bool" where
  "transfer_ok r = (case r of Inl e \<Rightarrow> False | Inr (ok, g) \<Rightarrow> ok)"

section \<open>The pool\<close>

datatype event =
    LiquidityAdded address uint256 uint256 uint256
  | LiquidityRemoved address uint256 uint256 uint256
  | Swap address uint256 uint256 address address

text \<open>
  The storage of a \<open>NebuPool\<close>, with its own address (\<open>address(this)\<close>), the liquidity
  token it deployed and administers, and the events it has emitted. The debugging
  \<open>console.log\<close> calls have no effect and are left out. \<open>addLiquidity\<close> and
  \<open>removeLiquidity\<close> drop the answer of their transfers; \<open>swapTokens\<close> requires it to
  be true.
\<close>

record pool =
  pool_address :: address
  token1 :: address
  token2 :: address
  reserve1 :: uint256
  reserve2 :: uint256
  constantK :: uint256
  liquidityToken :: NebulaLiquidityToken
  events :: "event list"

definition NebuPool :: "address \<Rightarrow> address \<Rightarrow> address \<Rightarrow> string \<Rightarrow> string \<Rightarrow> pool" where
  "NebuPool self t1 t2 name symbol =
     \<lparr>pool_address = self, token1 = t1, token2 = t2,
      reserve1 = 0, reserve2 = 0, constantK = 0,
      liquidityToken = NebulaLiquidityToken_new self name symbol,
      events = []\<rparr>"

definition getExpectedOutput :: "pool \<Rightarrow> address \<Rightarrow> uint256 \<Rightarrow> error + uint256" where
  "getExpectedOutput p fromToken amountIn =
     (if \<not> amountIn > 0 then Inl ZeroAmount
      else if \<not> (fromToken = token1 p \<or> fromToken = token2 p) then Inl InvalidAsset
      else if fromToken = token1 p then
        and_then (checked_add (reserve1 p) amountIn) (\<lambda>d.
        and_then (checked_div (constantK p) d) (\<lambda>q.
        checked_sub (reserve2 p) q))
      else
        and_then (checked_add (reserve2 p) amountIn) (\<lambda>d.
        and_then (checked_div (constantK p) d) (\<lambda>q.
        checked_sub (reserve1 p) q)))"

definition updateConstantFormula :: "pool \<Rightarrow> error + pool" where
  "updateConstantFormula p =
     (if reserve1 p = 0 \<or> reserve2 p = 0 then Inr (p\<lparr>constantK := 0\<rparr>)
      else and_then (checked_mul (reserve1 p) (reserve2 p)) (\<lambda>k.
             if \<not> k > 0 then Inl ConstantNotUpdated else Inr (p\<lparr>constantK := k\<rparr>)))"

text \<open>
  The two branches of \<open>addLiquidity\<close>: the liquidity to mint and the pool with its
  reserves updated.
\<close>

definition addLiquidity_amounts :: "pool \<Rightarrow> uint256 \<Rightarrow> uint256 \<Rightarrow> error + uint256 \<times> pool" where
  "addLiquidity_amounts p amountToken1 amountToken2 =
     (let totalSupplyOfToken = totalSupply (liquidityToken p)
      in if totalSupplyOfToken = 0 then
           and_then (checked_mul amountToken1 amountToken2) (\<lambda>m.
             let liquidity = Math_sqrt m
             in if \<not> liquidity > 0 then Inl InsufficientInitialLiquidity
                else Inr (liquidity, p\<lparr>reserve1 := amountToken1, reserve2 := amountToken2\<rparr>))
         else
           and_then (checked_mul amountToken1 totalSupplyOfToken) (\<lambda>x1.
           and_then (checked_div x1 (reserve1 p)) (\<lambda>liquidityFromToken1.
           and_then (checked_mul amountToken2 totalSupplyOfToken) (\<lambda>x2.
           and_then (checked_div x2 (reserve2 p)) (\<lambda>liquidityFromToken2.
           let liquidity = Math_min liquidityFromToken1 liquidityFromToken2
           in and_then (checked_add (reserve1 p) amountToken1) (\<lambda>r1.
              and_then (checked_add (reserve2 p) amountToken2) (\<lambda>r2.
              Inr (liquidity, p\<lparr>reserve1 := r1, reserve2 := r2\<rparr>))))))))"

definition addLiquidity ::
  "tokens \<Rightarrow> address \<Rightarrow> uint256 \<Rightarrow> uint256 \<Rightarrow> pool \<Rightarrow> error + tokens \<times> pool" where
  "addLiquidity g sender amountToken1 amountToken2 p =
     and_then (transferFrom g (token1 p) (pool_address p) sender (pool_address p) amountToken1)
       (\<lambda>(ok1, g1).
     and_then (transferFrom g1 (token2 p) (pool_address p) sender (pool_address p) amountToken2)
       (\<lambda>(ok2, g2).
     and_then (addLiquidity_amounts p amountToken1 amountToken2) (\<lambda>(liquidity, p1).
     and_then (mint (liquidityToken p1) (pool_address p1) sender liquidity) (\<lambda>l.
     and_then (updateConstantFormula (p1\<lparr>liquidityToken := l\<rparr>)) (\<lambda>p2.
     Inr (g2, p2\<lparr>events := events p2 @
                   [LiquidityAdded sender amountToken1 amountToken2 liquidity]\<rparr>))))))"

definition removeLiquidity ::
  "tokens \<Rightarrow> address \<Rightarrow> uint256 \<Rightarrow> pool \<Rightarrow> error + tokens \<times> pool" where
  "removeLiquidity g sender liquidity p =
     (let totalSupplyOfToken = totalSupply (liquidityToken p)
      in if \<not> totalSupplyOfToken > 0 then Inl NoLiquidity
         else
           and_then (checked_mul liquidity (reserve1 p)) (\<lambda>x1.
           and_then (checked_div x1 totalSupplyOfToken) (\<lambda>amountToken1.
           and_then (checked_mul liquidity (reserve2 p)) (\<lambda>x2.
           and_then (checked_div x2 totalSupplyOfToken) (\<lambda>amountToken2.
           and_then (burn (liquidityToken p) (pool_address p) sender liquidity) (\<lambda>l.
           and_then (checked_sub (reserve1 p) amountToken1) (\<lambda>r1.
           and_then (checked_sub (reserve2 p) amountToken2) (\<lambda>r2.
           and_then (updateConstantFormula
                       (p\<lparr>liquidityToken := l, reserve1 := r1, reserve2 := r2\<rparr>)) (\<lambda>p1.
           and_then (transfer g (token1 p) (pool_address p) sender amountToken1) (\<lambda>(ok1, g1).
           and_then (transfer g1 (token2 p) (pool_address p) sender amountToken2) (\<lambda>(ok2, g2).
           Inr (g2, p1\<lparr>events := events p1 @
                         [LiquidityRemoved sender amountToken1 amountToken2 liquidity]\<rparr>))))))))))))"

text \<open>The amount \<open>swapTokens\<close> pays out, and the reserves after the trade.\<close>

definition swap_expectedAmount :: "pool \<Rightarrow> address \<Rightarrow> uint256 \<Rightarrow> error + uint256" where
  "swap_expectedAmount p fromToken amountIn =
     (if fromToken = token1 p then
        and_then (checked_add (reserve1 p) amountIn) (\<lambda>d.
        and_then (checked_div (constantK p) d) (\<lambda>q.
        checked_sub (reserve2 p) q))
      else
        and_then (checked_add (reserve2 p) amountIn) (\<lambda>d.
        and_then (checked_div (constantK p) d) (\<lambda>q.
        checked_sub (reserve1 p) q)))"

definition swap_reserves ::
  "pool \<Rightarrow> address \<Rightarrow> address \<Rightarrow> uint256 \<Rightarrow> uint256 \<Rightarrow> error + pool" where
  "swap_reserves p fromToken toToken amountIn expectedAmount =
     (if fromToken = token1 p \<and> toToken = token2 p then
        and_then (checked_add (reserve1 p) amountIn) (\<lambda>r1.
        and_then (checked_sub (reserve2 p) expectedAmount) (\<lambda>r2.
        Inr (p\<lparr>reserve1 := r1, reserve2 := r2\<rparr>)))
      else
        and_then (checked_sub (reserve1 p) expectedAmount) (\<lambda>r1.
        and_then (checked_add (reserve2 p) amountIn) (\<lambda>r2.
        Inr (p\<lparr>reserve1 := r1, reserve2 := r2\<rparr>))))"

definition swapTokens ::
  "tokens \<Rightarrow> address \<Rightarrow> address \<Rightarrow> address \<Rightarrow> uint256 \<Rightarrow> uint256 \<Rightarrow> pool
     \<Rightarrow> error + tokens \<times> pool" where
  "swapTokens g sender fromToken toToken amountIn amountOut p =
     (if \<not> (amountIn > 0 \<and> amountOut > 0) then Inl ZeroAmount
      else if \<not> ((fromToken = token1 p \<and> toToken = token2 p)
                 \<or> (fromToken = token1 p \<and> toToken = token2 p)) then Inl InvalidAsset
      else if \<not> balanceOf (g fromToken) sender > amountIn then Inl InsufficientBalanceFrom
      else if \<not> balanceOf (g toToken) (pool_address p) > amountOut then Inl InsufficientBalanceTo
      else
        and_then (swap_expectedAmount p fromToken amountIn) (\<lambda>expectedAmount.
        if \<not> amountOut \<le> expectedAmount then Inl SlippageExceeded
        else
          and_then (transferFrom g fromToken (pool_address p) sender (pool_address p) amountIn)
            (\<lambda>(ok1, g1).
          if \<not> ok1 then Inl TransferFromFailed
          else
            and_then (transfer g1 toToken (pool_address p) sender expectedAmount) (\<lambda>(ok2, g2).
            if \<not> ok2 then Inl TransferToFailed
            else
              and_then (swap_reserves p fromToken toToken amountIn expectedAmount) (\<lambda>p1.
              and_then (checked_mul (reserve1 p1) (reserve2 p1)) (\<lambda>k.
              if \<not> k = constantK p1 then Inl InvariantViolation
              else Inr (g2, p1\<lparr>events := events p1 @
                               [Swap sender amountIn expectedAmount fromToken toToken]\<rparr>)))))))"

definition getReserves :: "pool \<Rightarrow> uint256 \<times> uint256" where
  "getReserves p = (reserve1 p, reserve2 p)"

text \<open>
  The pool states the public operations reach: a freshly constructed pool, and every
  state a successful \<open>addLiquidity\<close>, \<open>removeLiquidity\<close> or \<open>swapTokens\<close> leaves,
  whoever calls and whatever the asset tokens hold at that moment.
\<close>

inductive reachable :: "pool \<Rightarrow> bool" where
  constructed: "reachable (NebuPool self t1 t2 name symbol)"
| added: "reachable p \<Longrightarrow> addLiquidity g sender a1 a2 p = Inr (g', p') \<Longrightarrow> reachable p'"
| removed: "reachable p \<Longrightarrow> removeLiquidity g sender l p = Inr (g', p') \<Longrightarrow> reachable p'"
| swapped: "reachable p \<Longrightarrow> swapTokens g sender ft tt ai ao p = Inr (g', p') \<Longrightarrow> reachable p'"

section \<open>The registry\<close>

datatype registry_event = PairCreated address address address

record registry =
  allPairs :: "address list"
  getPair :: "address \<Rightarrow> address \<Rightarrow> address"
  registry_events :: "registry_event list"

definition NebuSwap :: registry where
  "NebuSwap = \<lparr>allPairs = [], getPair = (\<lambda>_ _. 0), registry_events = []\<rparr>"

text \<open>
  \<open>createPairs\<close> deploys a pool; \<open>new_pool\<close> is the address the chain gives it, which
  is never the zero address. The call returns that address; the model also returns the
  deployed pool.
\<close>

definition createPairs ::
  "address \<Rightarrow> registry \<Rightarrow> address \<Rightarrow> address \<Rightarrow> string \<Rightarrow> string
     \<Rightarrow> error + address \<times> pool \<times> registry" where
  "createPairs new_pool r t1 t2 token1Name token2Name =
     (if \<not> t1 \<noteq> t2 then Inl IdenticalAsset
      else if \<not> getPair r t1 t2 = 0 then Inl DuplicatePair
      else
        let liquidityTokenName = ''Liquidity-'' @ token1Name @ ''-'' @ token2Name;
            liquidityTokenSymbol = ''LP-'' @ token1Name @ ''-'' @ token2Name;
            nebuPool = NebuPool new_pool t1 t2 liquidityTokenName liquidityTokenSymbol;
            gp1 = (getPair r)(t1 := (getPair r t1)(t2 := new_pool));
            gp2 = gp1(t2 := (gp1 t2)(t1 := new_pool))
        in Inr (new_pool, nebuPool,
                r\<lparr>getPair := gp2, allPairs := allPairs r @ [new_pool],
                  registry_events := registry_events r @ [PairCreated t1 t2 new_pool]\<rparr>))"

definition allPairsLength :: "registry \<Rightarrow> nat" where
  "allPairsLength r = length (allPairs r)"

definition getPairs :: "registry \<Rightarrow> address list" where
  "getPairs r = allPairs r"

section \<open>Properties and scenarios\<close>

text \<open>The stored constant is the product of the reserves, as a number (no wrap-around).\<close>

definition constant_formula :: "pool \<Rightarrow> bool" where
  "constant_formula p \<longleftrightarrow> unat (constantK p) = unat (reserve1 p) * unat (reserve2 p)"

text \<open>The pool a call committed, without the tokens.\<close>

definition pool_of :: "error + tokens \<times> pool \<Rightarrow> error + pool" where
  "pool_of r = and_then r (\<lambda>(g, p). Inr p)"

text \<open>
  A small chain: two assets, a pool for them, a provider and a trader. \<open>funded\<close> is a
  state of the asset tokens in which the provider, the trader and the pool hold 1000
  units of every asset and the pool may pull 1000 from either of the two.
\<close>

definition tokA :: address where "tokA = 1"
definition tokB :: address where "tokB = 2"
definition poolAB :: address where "poolAB = 3"
definition alice :: address where "alice = 4"
definition bob :: address where "bob = 5"

definition funded :: tokens where
  "funded = (\<lambda>_. \<lparr>totalSupply = 3000,
                   balanceOf = (\<lambda>h. if h = alice \<or> h = bob \<or> h = poolAB then 1000 else 0),
                   allowance = (\<lambda>owner spender.
                      if (owner = alice \<or> owner = bob) \<and> spender = poolAB then 1000 else 0),
                   failure_reverts = True\<rparr>)"

text \<open>The pool as deployed, after \<open>addLiquidity(100, 400)\<close>, and after \<open>addLiquidity(10, 40)\<close>.\<close>

definition pool0 :: pool where
  "pool0 = NebuPool poolAB tokA tokB ''Liquidity-A-B'' ''LP-A-B''"

definition pool1 :: pool where
  "pool1 = pool0\<lparr>reserve1 := 100, reserve2 := 400, constantK := 40000,
             liquidityToken := (liquidityToken pool0)
               \<lparr>totalSupply := 200, balanceOf := (\<lambda>_. 0)(alice := 200)\<rparr>,
             events := [LiquidityAdded alice 100 400 200]\<rparr>"

definition pool2 :: pool where
  "pool2 = pool1\<lparr>reserve1 := 110, reserve2 := 440, constantK := 48400,
             liquidityToken := (liquidityToken pool0)
               \<lparr>totalSupply := 220, balanceOf := (\<lambda>_. 0)(alice := 220)\<rparr>,
             events := [LiquidityAdded alice 100 400 200, LiquidityAdded alice 10 40 20]\<rparr>"

text \<open>The first pool after the trader has swapped 100 units of the first asset.\<close>

definition pool1_swapped :: pool where
  "pool1_swapped = pool1\<lparr>reserve1 := 200, reserve2 := 200,
             events := [LiquidityAdded alice 100 400 200, Swap bob 100 200 tokA tokB]\<rparr>"

text \<open>The shares a call minted: the growth of the liquidity token's total supply.\<close>

definition minted_shares :: "pool \<Rightarrow> pool \<Rightarrow> nat" where
  "minted_shares p p' =
     unat (totalSupply (liquidityToken p')) - unat (totalSupply (liquidityToken p))"

text \<open>The part of a reserve that a number of shares stands for, rounded down.\<close>

definition share_of :: "uint256 \<Rightarrow> uint256 \<Rightarrow> uint256 \<Rightarrow> nat" where
  "share_of liquidity reserve supply = unat liquidity * unat reserve div unat supply"

text \<open>The first pool after \<open>addLiquidity(1, 1)\<close>, and after \<open>removeLiquidity(50)\<close>.\<close>

definition pool1_dust :: pool where
  "pool1_dust = pool1\<lparr>reserve1 := 101, reserve2 := 401, constantK := 40501,
             events := [LiquidityAdded alice 100 400 200, LiquidityAdded alice 1 1 0]\<rparr>"

definition pool1_removed :: pool where
  "pool1_removed = pool1\<lparr>reserve1 := 75, reserve2 := 300, constantK := 22500,
             liquidityToken := (liquidityToken pool0)
               \<lparr>totalSupply := 150, balanceOf := (\<lambda>_. 0)(alice := 150)\<rparr>,
             events := [LiquidityAdded alice 100 400 200, LiquidityRemoved alice 25 100 50]\<rparr>"

text \<open>
  A provider with \<open>2 ^ 254\<close> units of every asset, and the pool after that provider's
  first deposit of \<open>2 ^ 254\<close> units of the first asset and one unit of the second.
\<close>

definition whale :: tokens where
  "whale = (\<lambda>_. \<lparr>totalSupply = 2 ^ 254,
                  balanceOf = (\<lambda>h. if h = alice then 2 ^ 254 else 0),
                  allowance = (\<lambda>owner spender.
                     if owner = alice \<and> spender = poolAB then 2 ^ 254 else 0),
                  failure_reverts = True\<rparr>)"

definition pool_big :: pool where
  "pool_big = pool0\<lparr>reserve1 := 2 ^ 254, reserve2 := 1, constantK := 2 ^ 254,
             liquidityToken := (liquidityToken pool0)
               \<lparr>totalSupply := 2 ^ 127, balanceOf := (\<lambda>_. 0)(alice := 2 ^ 127)\<rparr>,
             events := [LiquidityAdded alice (2 ^ 254) 1 (2 ^ 127)]\<rparr>"

text \<open>
  The quote as the specification words it, for comparison with \<open>getExpectedOutput\<close>:
  \<open>K\<close> is computed from the reserves at the time of the call and nothing stored is read.
\<close>

definition quote_from_reserves :: "pool \<Rightarrow> address \<Rightarrow> uint256 \<Rightarrow> error + uint256" where
  "quote_from_reserves p fromAsset amountIn =
     (if amountIn = 0 then Inl ZeroAmount
      else if fromAsset \<noteq> token1 p \<and> fromAsset \<noteq> token2 p then Inl InvalidAsset
      else
        let (reserveIn, reserveOut) =
              (if fromAsset = token1 p then (reserve1 p, reserve2 p)
               else (reserve2 p, reserve1 p))
        in and_then (checked_mul reserveIn reserveOut) (\<lambda>K.
           and_then (checked_add reserveIn amountIn) (\<lambda>d.
           and_then (checked_div K d) (\<lambda>q.
           checked_sub reserveOut q))))"


text \<open>
  The registries that successful \<open>createPairs\<close> calls reach from a fresh \<open>NebuSwap\<close>,
  and the registries that come after a given one. The chain never deploys a contract at
  the zero address.
\<close>

inductive registry_reachable :: "registry \<Rightarrow> bool" where
  deployed: "registry_reachable NebuSwap"
| created: "registry_reachable r \<Longrightarrow> new_pool \<noteq> 0 \<Longrightarrow>
     createPairs new_pool r t1 t2 n1 n2 = Inr (a, p, r') \<Longrightarrow> registry_reachable r'"

inductive later :: "registry \<Rightarrow> registry \<Rightarrow> bool" where
  now: "later r r"
| after: "later r r' \<Longrightarrow> new_pool \<noteq> 0 \<Longrightarrow>
     createPairs new_pool r' t1 t2 n1 n2 = Inr (a, p, r'') \<Longrightarrow> later r r''"

text \<open>
  Two \<open>PairCreated\<close> events are for the same unordered pair; no two events of a log are;
  the pool of an event; both \<open>getPair\<close> entries of an event's pair are set.
\<close>

fun same_pair :: "registry_event \<Rightarrow> registry_event \<Rightarrow> bool" where
  "same_pair (PairCreated a b p) (PairCreated c d q) \<longleftrightarrow> (a = c \<and> b = d) \<or> (a = d \<and> b = c)"

fun one_pool_per_pair :: "registry_event list \<Rightarrow> bool" where
  "one_pool_per_pair [] \<longleftrightarrow> True"
| "one_pool_per_pair (e # es) \<longleftrightarrow> (\<forall>e' \<in> set es. \<not> same_pair e e') \<and> one_pool_per_pair es"

fun event_pool :: "registry_event \<Rightarrow> address" where
  "event_pool (PairCreated a b p) = p"

fun registered :: "registry \<Rightarrow> registry_event \<Rightarrow> bool" where
  "registered r (PairCreated a b p) \<longleftrightarrow> getPair r a b \<noteq> 0 \<and> getPair r b a \<noteq> 0"

definition registry_invariant :: "registry \<Rightarrow> bool" where
  "registry_invariant r \<longleftrightarrow>
     (\<forall>x y. getPair r x y = getPair r y x)
   \<and> (\<forall>e \<in> set (registry_events r). registered r e)
   \<and> one_pool_per_pair (registry_events r)
   \<and> allPairs r = map event_pool (registry_events r)"

text \<open>
  A third asset and the address of its pool with the first; the registry after
  \<open>createPairs(A, B)\<close>, and after \<open>createPairs(A, C)\<close> as well.
\<close>

definition tokC :: address where "tokC = 6"
definition poolAC :: address where "poolAC = 7"

definition registry1 :: registry where
  "registry1 = \<lparr>allPairs = [poolAB],
      getPair = (\<lambda>_ _. 0)(tokA := (\<lambda>_. 0)(tokB := poolAB), tokB := (\<lambda>_. 0)(tokA := poolAB)),
      registry_events = [PairCreated tokA tokB poolAB]\<rparr>"

definition registry2 :: registry where
  "registry2 = \<lparr>allPairs = [poolAB, poolAC],
      getPair = (\<lambda>_ _. 0)(tokB := (\<lambda>_. 0)(tokA := poolAB),
                            tokA := (\<lambda>_. 0)(tokB := poolAB, tokC := poolAC),
                            tokC := (\<lambda>_. 0)(tokA := poolAC)),
      registry_events = [PairCreated tokA tokB poolAB, PairCreated tokA tokC poolAC]\<rparr>"

text \<open>
  The balances of the liquidity token add up to its total supply. An address is a 160-bit
  word, so the sum is over finitely many holders.
\<close>

definition supply_consistent :: "NebulaLiquidityToken \<Rightarrow> bool" where
  "supply_consistent t \<longleftrightarrow> (\<Sum>h\<in>UNIV. unat (balanceOf t h)) = unat (totalSupply t)"

text \<open>Asset tokens that hold nothing and answer false instead of reverting.\<close>

definition silent :: tokens where
  "silent = (\<lambda>_. \<lparr>totalSupply = 0, balanceOf = (\<lambda>_. 0), allowance = (\<lambda>_ _. 0),
                   failure_reverts = False\<rparr>)"

section \<open>Basic facts\<close>

lemma and_then_Inl [simp]: "and_then (Inl e) f = Inl e"
  by (simp add: and_then_def)

lemma and_then_Inr [simp]: "and_then (Inr x) f = f x"
  by (simp add: and_then_def)

lemma and_then_eq_Inr: "and_then m f = Inr y \<longleftrightarrow> (\<exists>x. m = Inr x \<and> f x = Inr y)"
  by (cases m) simp_all

lemma checked_add_Inr: "checked_add a b = Inr c \<longleftrightarrow> unat a + unat b < 2 ^ 256 \<and> c = a + b"
  by (auto simp: checked_add_def)

lemma unat_checked_add: "checked_add a b = Inr c \<Longrightarrow> unat c = unat a + unat b"
  using unat_add_lem [of a b] by (simp add: checked_add_Inr)

lemma checked_mul_Inr: "checked_mul a b = Inr c \<longleftrightarrow> unat a * unat b < 2 ^ 256 \<and> c = a * b"
  by (auto simp: checked_mul_def)

lemma unat_checked_mul: "checked_mul a b = Inr c \<Longrightarrow> unat c = unat a * unat b"
  using unat_mult_lem [of a b] by (simp add: checked_mul_Inr)

lemma checked_sub_Inr: "checked_sub a b = Inr c \<longleftrightarrow> b \<le> a \<and> c = a - b"
  by (auto simp: checked_sub_def)

lemma unat_checked_sub: "checked_sub a b = Inr c \<Longrightarrow> unat c = unat a - unat b"
  by (simp add: checked_sub_Inr unat_sub)

lemma checked_div_Inr: "checked_div a b = Inr c \<longleftrightarrow> b \<noteq> 0 \<and> c = a div b"
  by (auto simp: checked_div_def)

lemma unat_checked_div: "checked_div a b = Inr c \<Longrightarrow> unat c = unat a div unat b"
  by (simp add: checked_div_Inr unat_div)

subsection \<open>The integer square root\<close>

lemma sqrt_nat_small: "n < 2 \<Longrightarrow> sqrt_nat n = n"
  by (subst sqrt_nat.simps) simp

lemma sqrt_nat_step:
  "\<not> n < 2 \<Longrightarrow> sqrt_nat n =
     (if (2 * sqrt_nat (n div 4) + 1) * (2 * sqrt_nat (n div 4) + 1) \<le> n
      then 2 * sqrt_nat (n div 4) + 1 else 2 * sqrt_nat (n div 4))"
  by (subst sqrt_nat.simps) (simp add: Let_def)

text \<open>\<open>sqrt_nat n\<close> is the floor of the square root of \<open>n\<close>.\<close>

lemma sqrt_nat_bounds: "sqrt_nat n * sqrt_nat n \<le> n \<and> n < (sqrt_nat n + 1) * (sqrt_nat n + 1)"
proof (induction n rule: sqrt_nat.induct)
  case (1 n)
  show ?case
  proof (cases "n < 2")
    case True
    then have "sqrt_nat n = n" by (rule sqrt_nat_small)
    moreover from True have "n = 0 \<or> n = 1" by arith
    ultimately show ?thesis by auto
  next
    case False
    define s where "s = sqrt_nat (n div 4)"
    from False "1.IH" have IH: "s * s \<le> n div 4 \<and> n div 4 < (s + 1) * (s + 1)"
      unfolding s_def by blast
    have a: "(2 * s) * (2 * s) \<le> n"
    proof -
      have "(2 * s) * (2 * s) = 4 * (s * s)" by simp
      also have "\<dots> \<le> 4 * (n div 4)" using IH by simp
      also have "\<dots> \<le> n" by simp
      finally show ?thesis .
    qed
    have b: "n < (2 * s + 2) * (2 * s + 2)"
    proof -
      have "n div 4 + 1 \<le> (s + 1) * (s + 1)" using IH by simp
      then have "4 * (n div 4 + 1) \<le> 4 * ((s + 1) * (s + 1))" by simp
      moreover have "n < 4 * (n div 4 + 1)" by simp
      moreover have "4 * ((s + 1) * (s + 1)) = (2 * s + 2) * (2 * s + 2)" by simp
      ultimately show ?thesis by linarith
    qed
    have eq: "sqrt_nat n = (if (2 * s + 1) * (2 * s + 1) \<le> n then 2 * s + 1 else 2 * s)"
      unfolding s_def using False by (rule sqrt_nat_step)
    show ?thesis
    proof (cases "(2 * s + 1) * (2 * s + 1) \<le> n")
      case True
      then have "sqrt_nat n = 2 * s + 1" using eq by simp
      moreover have "2 * s + 1 + 1 = 2 * s + 2" by simp
      ultimately show ?thesis using True b by simp
    next
      case False
      then have "sqrt_nat n = 2 * s" using eq by simp
      then show ?thesis using False a by simp
    qed
  qed
qed

lemma sqrt_nat_le: "sqrt_nat n \<le> n"
proof (cases "sqrt_nat n")
  case 0
  then show ?thesis by simp
next
  case (Suc k)
  have "sqrt_nat n * 1 \<le> sqrt_nat n * sqrt_nat n" unfolding Suc by simp
  also have "\<dots> \<le> n" using sqrt_nat_bounds by blast
  finally show ?thesis by simp
qed

lemma unat_Math_sqrt: "unat (Math_sqrt a) = sqrt_nat (unat a)"
proof -
  have "sqrt_nat (unat a) \<le> unat a" by (rule sqrt_nat_le)
  also have "unat a < 2 ^ 256" using unsigned_less [of a] by simp
  finally show ?thesis by (simp add: Math_sqrt_def unat_of_nat)
qed

subsection \<open>Shapes of successful calls\<close>

lemma isl_and_then: "isl (and_then m f) \<longleftrightarrow> (\<forall>x. m = Inr x \<longrightarrow> isl (f x))"
  by (cases m) simp_all

lemma unat_lt_2p256: "unat (a :: uint256) < 2 ^ 256"
  using unsigned_less [of a] by simp

lemma mint_Inr:
  "mint t caller to amount = Inr l \<longleftrightarrow>
     caller = admin t \<and> unat (totalSupply t) + unat amount < 2 ^ 256 \<and>
     l = t\<lparr>totalSupply := totalSupply t + amount,
           balanceOf := (balanceOf t)(to := balanceOf t to + amount)\<rparr>"
  by (auto simp: mint_def erc20_mint_def and_then_eq_Inr checked_add_Inr)

lemma updateConstantFormula_shape:
  "updateConstantFormula p = Inr p' \<Longrightarrow> \<exists>k. p' = p\<lparr>constantK := k\<rparr>"
  by (auto simp: updateConstantFormula_def and_then_eq_Inr split: if_splits)

lemma addLiquidity_InrD:
  assumes "addLiquidity g sender a1 a2 p = Inr (g', p')"
  shows "\<exists>ok1 g1 ok2 liquidity p1 l k.
     transferFrom g (token1 p) (pool_address p) sender (pool_address p) a1 = Inr (ok1, g1)
   \<and> transferFrom g1 (token2 p) (pool_address p) sender (pool_address p) a2 = Inr (ok2, g')
   \<and> addLiquidity_amounts p a1 a2 = Inr (liquidity, p1)
   \<and> mint (liquidityToken p1) (pool_address p1) sender liquidity = Inr l
   \<and> p' = p1\<lparr>liquidityToken := l, constantK := k,
              events := events p1 @ [LiquidityAdded sender a1 a2 liquidity]\<rparr>"
  using assms
  by (auto simp: addLiquidity_def and_then_eq_Inr dest!: updateConstantFormula_shape)

lemma burn_Inr:
  "burn t caller from amount = Inr l \<longleftrightarrow>
     caller = admin t \<and> \<not> balanceOf t from < amount \<and>
     l = t\<lparr>balanceOf := (balanceOf t)(from := balanceOf t from - amount),
           totalSupply := totalSupply t - amount\<rparr>"
  by (auto simp: burn_def erc20_burn_def)

lemma unat_share:
  assumes "unat liquidity * unat reserve < 2 ^ 256"
  shows "unat (liquidity * reserve div supply) = share_of liquidity reserve supply"
  using assms unat_mult_lem [of liquidity reserve] by (simp add: share_of_def unat_div)

lemma removeLiquidity_InrD:
  assumes "removeLiquidity g sender liquidity p = Inr (g', p')"
  shows "\<exists>l k ok1 g1 ok2.
     0 < totalSupply (liquidityToken p)
   \<and> unat liquidity * unat (reserve1 p) < 2 ^ 256
   \<and> unat liquidity * unat (reserve2 p) < 2 ^ 256
   \<and> burn (liquidityToken p) (pool_address p) sender liquidity = Inr l
   \<and> liquidity * reserve1 p div totalSupply (liquidityToken p) \<le> reserve1 p
   \<and> liquidity * reserve2 p div totalSupply (liquidityToken p) \<le> reserve2 p
   \<and> p' = p\<lparr>liquidityToken := l,
             reserve1 := reserve1 p - liquidity * reserve1 p div totalSupply (liquidityToken p),
             reserve2 := reserve2 p - liquidity * reserve2 p div totalSupply (liquidityToken p),
             constantK := k,
             events := events p @
               [LiquidityRemoved sender
                  (liquidity * reserve1 p div totalSupply (liquidityToken p))
                  (liquidity * reserve2 p div totalSupply (liquidityToken p)) liquidity]\<rparr>
   \<and> transfer g (token1 p) (pool_address p) sender
         (liquidity * reserve1 p div totalSupply (liquidityToken p)) = Inr (ok1, g1)
   \<and> transfer g1 (token2 p) (pool_address p) sender
         (liquidity * reserve2 p div totalSupply (liquidityToken p)) = Inr (ok2, g')"
  using assms
  by (auto simp: removeLiquidity_def Let_def and_then_eq_Inr checked_mul_Inr checked_div_Inr
      checked_sub_Inr split: if_splits dest!: updateConstantFormula_shape)


lemma updateConstantFormula_succeeds:
  assumes "unat (reserve1 p) * unat (reserve2 p) < 2 ^ 256"
  shows "\<exists>k. updateConstantFormula p = Inr (p\<lparr>constantK := k\<rparr>)"
proof (cases "reserve1 p = 0 \<or> reserve2 p = 0")
  case True
  then show ?thesis by (auto simp: updateConstantFormula_def)
next
  case False
  then have "0 < unat (reserve1 p) * unat (reserve2 p)" by (simp add: unat_gt_0)
  then have "0 < unat (reserve1 p * reserve2 p)"
    using assms unat_mult_lem [of "reserve1 p" "reserve2 p"] by simp
  then have "0 < reserve1 p * reserve2 p" by (simp add: word_less_nat_alt)
  with False assms show ?thesis
    by (auto simp: updateConstantFormula_def checked_mul_def)
qed

lemma share_le:
  fixes liquidity reserve total :: uint256
  assumes "liquidity \<le> total" and "0 < total"
    and "unat liquidity * unat reserve < 2 ^ 256"
  shows "liquidity * reserve div total \<le> reserve"
proof -
  from assms(1) have "unat liquidity \<le> unat total" by (simp add: word_le_nat_alt)
  then have "unat liquidity * unat reserve \<le> unat total * unat reserve"
    by (rule mult_le_mono1)
  then have "unat liquidity * unat reserve div unat total
               \<le> unat total * unat reserve div unat total"
    by (rule div_le_mono)
  also have "\<dots> = unat reserve"
    using assms(2) by (simp add: word_less_nat_alt)
  finally have "share_of liquidity reserve total \<le> unat reserve"
    by (simp add: share_of_def)
  then show ?thesis using unat_share [OF assms(3)] by (simp add: word_le_nat_alt)
qed

lemma removeLiquidity_succeeds:
  assumes adm: "admin (liquidityToken p) = pool_address p"
    and ts: "0 < totalSupply (liquidityToken p)"
    and f1: "unat liquidity * unat (reserve1 p) < 2 ^ 256"
    and f2: "unat liquidity * unat (reserve2 p) < 2 ^ 256"
    and bal: "liquidity \<le> balanceOf (liquidityToken p) sender"
    and le: "liquidity \<le> totalSupply (liquidityToken p)"
    and k: "unat (reserve1 p) * unat (reserve2 p) < 2 ^ 256"
    and t1: "transfer g (token1 p) (pool_address p) sender
               (liquidity * reserve1 p div totalSupply (liquidityToken p)) = Inr (ok1, g1)"
    and t2: "transfer g1 (token2 p) (pool_address p) sender
               (liquidity * reserve2 p div totalSupply (liquidityToken p)) = Inr (ok2, g2)"
  shows "\<exists>q. removeLiquidity g sender liquidity p = Inr (g2, q)"
proof -
  let ?ts = "totalSupply (liquidityToken p)"
  let ?A1 = "liquidity * reserve1 p div ?ts" and ?A2 = "liquidity * reserve2 p div ?ts"
  let ?q = "p\<lparr>liquidityToken :=
               (liquidityToken p)\<lparr>balanceOf := (balanceOf (liquidityToken p))
                    (sender := balanceOf (liquidityToken p) sender - liquidity),
                  totalSupply := ?ts - liquidity\<rparr>,
             reserve1 := reserve1 p - ?A1, reserve2 := reserve2 p - ?A2\<rparr>"
  have a1: "?A1 \<le> reserve1 p" using le ts f1 by (rule share_le)
  have a2: "?A2 \<le> reserve2 p" using le ts f2 by (rule share_le)
  have "unat (reserve1 p - ?A1) \<le> unat (reserve1 p)" "unat (reserve2 p - ?A2) \<le> unat (reserve2 p)"
    using a1 a2 by (simp_all add: unat_sub)
  then have "unat (reserve1 p - ?A1) * unat (reserve2 p - ?A2)
               \<le> unat (reserve1 p) * unat (reserve2 p)"
    by (rule mult_le_mono)
  with k have "unat (reserve1 ?q) * unat (reserve2 ?q) < 2 ^ 256" by simp
  from updateConstantFormula_succeeds [OF this]
  obtain c where u: "updateConstantFormula ?q = Inr (?q\<lparr>constantK := c\<rparr>)" ..
  have nz: "?ts \<noteq> 0" using ts by (simp add: word_greater_zero_iff)
  have b: "\<not> balanceOf (liquidityToken p) sender < liquidity" using bal by simp
  show ?thesis
    unfolding removeLiquidity_def Let_def
    using adm ts f1 f2 nz b a1 a2 u t1 t2
    by (simp add: checked_mul_def checked_div_def checked_sub_def burn_def erc20_burn_def)
qed


subsection \<open>Running the scenarios\<close>

lemma pool_of_Inr: "pool_of r = Inr p \<longleftrightarrow> (\<exists>g. r = Inr (g, p))"
  by (auto simp: pool_of_def and_then_eq_Inr)

lemmas scenario_defs =
  tokA_def tokB_def poolAB_def alice_def bob_def funded_def pool0_def NebuPool_def
  NebulaLiquidityToken_new_def

lemmas op_defs =
  addLiquidity_def addLiquidity_amounts_def removeLiquidity_def swapTokens_def
  swap_expectedAmount_def swap_reserves_def updateConstantFormula_def getExpectedOutput_def
  transfer_def transferFrom_def erc20_transfer_def erc20_transferFrom_def erc20_fail_def
  transfer_ok_def mint_def burn_def
  erc20_mint_def erc20_burn_def
  checked_add_def checked_sub_def checked_mul_def checked_div_def Math_min_def pool_of_def

lemma sqrt_nat_unique:
  assumes "m * m \<le> n" and "n < (m + 1) * (m + 1)"
  shows "sqrt_nat n = m"
proof (rule ccontr)
  assume neq: "sqrt_nat n \<noteq> m"
  let ?s = "sqrt_nat n"
  have b: "?s * ?s \<le> n" "n < (?s + 1) * (?s + 1)"
    using sqrt_nat_bounds [of n] by blast+
  from neq consider "?s + 1 \<le> m" | "m + 1 \<le> ?s" by linarith
  then show False
  proof cases
    case 1
    have "(?s + 1) * (?s + 1) \<le> m * m" using mult_le_mono [OF 1 1] .
    with b(2) assms(1) show False by linarith
  next
    case 2
    have "(m + 1) * (m + 1) \<le> ?s * ?s" using mult_le_mono [OF 2 2] .
    with b(1) assms(2) show False by linarith
  qed
qed

lemma Math_sqrt_40000: "Math_sqrt 40000 = 200"
proof -
  have "sqrt_nat 40000 = 200" by (rule sqrt_nat_unique) simp_all
  then show ?thesis by (simp add: Math_sqrt_def)
qed

lemma first_deposit: "pool_of (addLiquidity funded alice 100 400 pool0) = Inr pool1"
  by (simp add: op_defs scenario_defs pool1_def Math_sqrt_40000 Let_def)

lemma second_deposit: "pool_of (addLiquidity funded alice 10 40 pool1) = Inr pool2"
  by (simp add: op_defs scenario_defs pool1_def pool2_def Let_def)

lemma swap_100: "pool_of (swapTokens funded bob tokA tokB 100 200 pool1) = Inr pool1_swapped"
  by (simp add: op_defs scenario_defs pool1_def pool1_swapped_def Let_def)

lemma reachable_pool0: "reachable pool0"
  unfolding pool0_def by (rule reachable.constructed)

lemma reachable_pool1: "reachable pool1"
  using reachable_pool0 first_deposit by (auto simp: pool_of_Inr intro: reachable.added)

lemma reachable_pool2: "reachable pool2"
  using reachable_pool1 second_deposit by (auto simp: pool_of_Inr intro: reachable.added)

lemma Math_sqrt_big: "Math_sqrt (2 ^ 254) = 2 ^ 127"
proof -
  have "sqrt_nat (2 ^ 254) = 2 ^ 127" by (rule sqrt_nat_unique) simp_all
  then show ?thesis by (simp add: Math_sqrt_def)
qed

lemma big_deposit: "pool_of (addLiquidity whale alice (2 ^ 254) 1 pool0) = Inr pool_big"
  by (simp add: op_defs scenario_defs whale_def pool_big_def Math_sqrt_big [simplified] Let_def)

lemma reachable_pool_big: "reachable pool_big"
  using reachable_pool0 big_deposit by (auto simp: pool_of_Inr intro: reachable.added)

lemma partial_removal: "pool_of (removeLiquidity funded alice 50 pool1) = Inr pool1_removed"
  by (simp add: op_defs scenario_defs pool1_def pool1_removed_def Let_def)


subsection \<open>A reachable pool administers its liquidity token\<close>

lemma addLiquidity_amounts_keeps:
  "addLiquidity_amounts p a1 a2 = Inr (l, p1) \<Longrightarrow>
     liquidityToken p1 = liquidityToken p \<and> pool_address p1 = pool_address p"
  by (auto simp: addLiquidity_amounts_def Let_def and_then_eq_Inr split: if_splits)

lemma addLiquidity_admin:
  assumes "addLiquidity g sender a1 a2 p = Inr (g', p')"
    and "admin (liquidityToken p) = pool_address p"
  shows "admin (liquidityToken p') = pool_address p'"
proof -
  from addLiquidity_InrD [OF assms(1)] obtain liquidity p1 l k where
    am: "addLiquidity_amounts p a1 a2 = Inr (liquidity, p1)"
    and m: "mint (liquidityToken p1) (pool_address p1) sender liquidity = Inr l"
    and p': "p' = p1\<lparr>liquidityToken := l, constantK := k,
              events := events p1 @ [LiquidityAdded sender a1 a2 liquidity]\<rparr>"
    by blast
  from m have "admin l = admin (liquidityToken p1)" by (simp add: mint_Inr)
  with addLiquidity_amounts_keeps [OF am] assms(2) show ?thesis by (simp add: p')
qed

lemma removeLiquidity_admin:
  assumes "removeLiquidity g sender liquidity p = Inr (g', p')"
    and "admin (liquidityToken p) = pool_address p"
  shows "admin (liquidityToken p') = pool_address p'"
proof -
  from removeLiquidity_InrD [OF assms(1)] obtain l where
    b: "burn (liquidityToken p) (pool_address p) sender liquidity = Inr l"
    and "liquidityToken p' = l" and "pool_address p' = pool_address p"
    by auto
  moreover from b have "admin l = admin (liquidityToken p)" by (simp add: burn_Inr)
  ultimately show ?thesis using assms(2) by simp
qed

lemma swapTokens_keeps:
  "swapTokens g sender ft tt ai ao p = Inr (g', p') \<Longrightarrow>
     liquidityToken p' = liquidityToken p \<and> pool_address p' = pool_address p"
  by (auto simp: swapTokens_def swap_reserves_def and_then_eq_Inr split: if_splits)

lemma reachable_admin: "reachable p \<Longrightarrow> admin (liquidityToken p) = pool_address p"
proof (induction rule: reachable.induct)
  case (constructed self t1 t2 name symbol)
  show ?case by (simp add: NebuPool_def NebulaLiquidityToken_new_def)
next
  case (added p g sender a1 a2 g' p')
  then show ?case by (blast dest: addLiquidity_admin)
next
  case (removed p g sender l g' p')
  then show ?case by (blast dest: removeLiquidity_admin)
next
  case (swapped p g sender ft tt ai ao g' p')
  then show ?case by (simp add: swapTokens_keeps)
qed


subsection \<open>The shares of a reachable pool add up to the total supply\<close>

lemma sum_balances_split:
  fixes b :: "address \<Rightarrow> uint256"
  shows "(\<Sum>h\<in>UNIV. unat (b h)) = unat (b a) + (\<Sum>h\<in>UNIV - {a}. unat (b h))"
  by (rule sum.remove) simp_all

lemma sum_balances_upd:
  fixes b :: "address \<Rightarrow> uint256"
  shows "(\<Sum>h\<in>UNIV. unat ((b(a := v)) h)) = unat v + (\<Sum>h\<in>UNIV - {a}. unat (b h))"
proof -
  have "(\<Sum>h\<in>UNIV. unat ((b(a := v)) h))
          = unat ((b(a := v)) a) + (\<Sum>h\<in>UNIV - {a}. unat ((b(a := v)) h))"
    by (rule sum_balances_split)
  also have "(\<Sum>h\<in>UNIV - {a}. unat ((b(a := v)) h)) = (\<Sum>h\<in>UNIV - {a}. unat (b h))"
    by (rule sum.cong) simp_all
  finally show ?thesis by simp
qed

lemma balance_le_sum:
  fixes b :: "address \<Rightarrow> uint256"
  shows "unat (b a) \<le> (\<Sum>h\<in>UNIV. unat (b h))"
  using sum_balances_split [of b a] by simp

lemma supply_consistent_le:
  "supply_consistent t \<Longrightarrow> balanceOf t h \<le> totalSupply t"
  using balance_le_sum [of "balanceOf t" h]
  by (simp add: supply_consistent_def word_le_nat_alt)

lemma mint_consistent:
  assumes m: "mint t caller to amount = Inr l" and c: "supply_consistent t"
  shows "supply_consistent l"
proof -
  from m have fit: "unat (totalSupply t) + unat amount < 2 ^ 256"
    and l: "l = t\<lparr>totalSupply := totalSupply t + amount,
           balanceOf := (balanceOf t)(to := balanceOf t to + amount)\<rparr>"
    by (simp_all add: mint_Inr)
  have "unat (balanceOf t to) \<le> unat (totalSupply t)"
    using supply_consistent_le [OF c, of to] by (simp add: word_le_nat_alt)
  with fit have "unat (balanceOf t to) + unat amount < 2 ^ 256" by simp
  then have b: "unat (balanceOf t to + amount) = unat (balanceOf t to) + unat amount"
    using unat_add_lem [of "balanceOf t to" amount] by simp
  have s: "unat (totalSupply t + amount) = unat (totalSupply t) + unat amount"
    using fit unat_add_lem [of "totalSupply t" amount] by simp
  have bl: "balanceOf l = (balanceOf t)(to := balanceOf t to + amount)"
    and tl: "totalSupply l = totalSupply t + amount" by (simp_all add: l)
  have "(\<Sum>h\<in>UNIV. unat (balanceOf l h))
          = unat (balanceOf t to + amount) + (\<Sum>h\<in>UNIV - {to}. unat (balanceOf t h))"
    unfolding bl by (rule sum_balances_upd)
  also have "\<dots> = (\<Sum>h\<in>UNIV. unat (balanceOf t h)) + unat amount"
    unfolding b sum_balances_split [of "balanceOf t" to] by simp
  also have "\<dots> = unat (totalSupply l)"
    using c unfolding tl s supply_consistent_def by simp
  finally show ?thesis unfolding supply_consistent_def .
qed

lemma burn_consistent:
  assumes m: "burn t caller from amount = Inr l" and c: "supply_consistent t"
  shows "supply_consistent l"
proof -
  from m have le: "amount \<le> balanceOf t from"
    and l: "l = t\<lparr>balanceOf := (balanceOf t)(from := balanceOf t from - amount),
           totalSupply := totalSupply t - amount\<rparr>"
    by (auto simp: burn_Inr not_less)
  have le2: "amount \<le> totalSupply t"
    using le supply_consistent_le [OF c, of "from"] by simp
  have b: "unat (balanceOf t from - amount) = unat (balanceOf t from) - unat amount"
    using le by (simp add: unat_sub)
  have s: "unat (totalSupply t - amount) = unat (totalSupply t) - unat amount"
    using le2 by (simp add: unat_sub)
  have ule: "unat amount \<le> unat (balanceOf t from)" using le by (simp add: word_le_nat_alt)
  have bl: "balanceOf l = (balanceOf t)(from := balanceOf t from - amount)"
    and tl: "totalSupply l = totalSupply t - amount" by (simp_all add: l)
  have "(\<Sum>h\<in>UNIV. unat (balanceOf l h))
          = unat (balanceOf t from - amount) + (\<Sum>h\<in>UNIV - {from}. unat (balanceOf t h))"
    unfolding bl by (rule sum_balances_upd)
  also have "\<dots> = (\<Sum>h\<in>UNIV. unat (balanceOf t h)) - unat amount"
    unfolding b sum_balances_split [of "balanceOf t" "from"] using ule by simp
  also have "\<dots> = unat (totalSupply l)"
    using c unfolding tl s supply_consistent_def by simp
  finally show ?thesis unfolding supply_consistent_def .
qed

lemma addLiquidity_consistent:
  assumes "addLiquidity g sender a1 a2 p = Inr (g', p')"
    and "supply_consistent (liquidityToken p)"
  shows "supply_consistent (liquidityToken p')"
proof -
  from addLiquidity_InrD [OF assms(1)] obtain liquidity p1 l k where
    am: "addLiquidity_amounts p a1 a2 = Inr (liquidity, p1)"
    and m: "mint (liquidityToken p1) (pool_address p1) sender liquidity = Inr l"
    and p': "p' = p1\<lparr>liquidityToken := l, constantK := k,
              events := events p1 @ [LiquidityAdded sender a1 a2 liquidity]\<rparr>"
    by blast
  from addLiquidity_amounts_keeps [OF am] assms(2)
  have "supply_consistent (liquidityToken p1)" by simp
  from mint_consistent [OF m this] show ?thesis by (simp add: p')
qed

lemma removeLiquidity_consistent:
  assumes "removeLiquidity g sender liquidity p = Inr (g', p')"
    and "supply_consistent (liquidityToken p)"
  shows "supply_consistent (liquidityToken p')"
proof -
  from removeLiquidity_InrD [OF assms(1)] obtain l where
    b: "burn (liquidityToken p) (pool_address p) sender liquidity = Inr l"
    and "liquidityToken p' = l"
    by auto
  with burn_consistent [OF b assms(2)] show ?thesis by simp
qed

lemma reachable_consistent: "reachable p \<Longrightarrow> supply_consistent (liquidityToken p)"
proof (induction rule: reachable.induct)
  case (constructed self t1 t2 name symbol)
  show ?case by (simp add: NebuPool_def NebulaLiquidityToken_new_def supply_consistent_def)
next
  case (added p g sender a1 a2 g' p')
  then show ?case by (blast dest: addLiquidity_consistent)
next
  case (removed p g sender l g' p')
  then show ?case by (blast dest: removeLiquidity_consistent)
next
  case (swapped p g sender ft tt ai ao g' p')
  then show ?case by (simp add: swapTokens_keeps)
qed


section \<open>The constant formula\<close>

lemma constant_formula_events [simp]:
  "constant_formula (p\<lparr>events := ev\<rparr>) = constant_formula p"
  by (simp add: constant_formula_def)

lemma updateConstantFormula_Inr:
  "updateConstantFormula p = Inr p' \<Longrightarrow>
     p' = p\<lparr>constantK := constantK p'\<rparr> \<and>
     unat (constantK p') = unat (reserve1 p) * unat (reserve2 p)"
  by (auto simp: updateConstantFormula_def and_then_eq_Inr unat_checked_mul split: if_splits)

lemma updateConstantFormula_formula:
  assumes "updateConstantFormula p = Inr p'"
  shows "constant_formula p'"
proof -
  from updateConstantFormula_Inr [OF assms]
  have "reserve1 p' = reserve1 p" "reserve2 p' = reserve2 p"
    and "unat (constantK p') = unat (reserve1 p) * unat (reserve2 p)"
    by (metis pool.select_convs pool.surjective pool.update_convs)+
  then show ?thesis by (simp add: constant_formula_def)
qed

lemma addLiquidity_formula:
  "addLiquidity g sender a1 a2 p = Inr (g', p') \<Longrightarrow> constant_formula p'"
  by (auto simp: addLiquidity_def and_then_eq_Inr dest: updateConstantFormula_formula)

lemma removeLiquidity_formula:
  "removeLiquidity g sender l p = Inr (g', p') \<Longrightarrow> constant_formula p'"
  by (auto simp: removeLiquidity_def Let_def and_then_eq_Inr
      dest: updateConstantFormula_formula split: if_splits)

lemma swap_reserves_constantK:
  "swap_reserves p ft tt ai ea = Inr p1 \<Longrightarrow> constantK p1 = constantK p"
  by (auto simp: swap_reserves_def and_then_eq_Inr split: if_splits)

lemma swapTokens_formula:
  "swapTokens g sender ft tt ai ao p = Inr (g', p') \<Longrightarrow> constant_formula p'"
  by (auto simp: swapTokens_def and_then_eq_Inr constant_formula_def
      dest: unat_checked_mul split: if_splits)

lemma swapTokens_constantK:
  "swapTokens g sender ft tt ai ao p = Inr (g', p') \<Longrightarrow> constantK p' = constantK p"
  by (auto simp: swapTokens_def and_then_eq_Inr dest: swap_reserves_constantK split: if_splits)

lemma reachable_formula: "reachable p \<Longrightarrow> constant_formula p"
proof (induction rule: reachable.induct)
  case (constructed self t1 t2 name symbol)
  show ?case by (simp add: NebuPool_def constant_formula_def)
next
  case (added p g sender a1 a2 g' p')
  then show ?case by (blast dest: addLiquidity_formula)
next
  case (removed p g sender l g' p')
  then show ?case by (blast dest: removeLiquidity_formula)
next
  case (swapped p g sender ft tt ai ao g' p')
  then show ?case by (blast dest: swapTokens_formula)
qed

text \<open>A pool that \<open>createPairs\<close> deploys is a freshly constructed pool.\<close>

lemma createPairs_reachable:
  "createPairs a r t1 t2 n1 n2 = Inr (x, p, r') \<Longrightarrow> reachable p"
  by (auto simp: createPairs_def Let_def reachable.constructed split: if_splits)

text \<open>
  C9. In every pool state reached through successful calls, the stored \<open>constantK\<close> is
  the product of the two reserves when both are nonzero, and 0 when either is zero.
\<close>

theorem constantK_is_product:
  "reachable p \<Longrightarrow>
     (reserve1 p \<noteq> 0 \<and> reserve2 p \<noteq> 0 \<longrightarrow>
        unat (constantK p) = unat (reserve1 p) * unat (reserve2 p)) \<and>
     (reserve1 p = 0 \<or> reserve2 p = 0 \<longrightarrow> constantK p = 0)"
proof -
  assume "reachable p"
  then have f: "unat (constantK p) = unat (reserve1 p) * unat (reserve2 p)"
    using reachable_formula by (simp add: constant_formula_def)
  have "constantK p = 0" if "reserve1 p = 0 \<or> reserve2 p = 0"
    using that f by (auto simp: unat_eq_0)
  with f show ?thesis by blast
qed

theorem constantK_is_product_witness:
  "(reachable pool2 \<and> reserve1 pool2 \<noteq> 0 \<and> reserve2 pool2 \<noteq> 0
      \<and> unat (constantK pool2) = 110 * 440)
   \<and> (reachable pool0 \<and> reserve1 pool0 = 0 \<and> constantK pool0 = 0)"
  using constantK_is_product [OF reachable_pool2] constantK_is_product [OF reachable_pool0]
    reachable_pool2 reachable_pool0
  by (simp add: pool2_def pool1_def pool0_def NebuPool_def)

text \<open>
  C1. For every reachable pool state and every swap that completes successfully, the
  product of the reserves after the swap is at least the product before it.
\<close>

theorem swap_product_monotone:
  assumes "reachable p" and "swapTokens g sender ft tt ai ao p = Inr (g', p')"
  shows "unat (reserve1 p) * unat (reserve2 p) \<le> unat (reserve1 p') * unat (reserve2 p')"
proof -
  have "constant_formula p" using assms(1) by (rule reachable_formula)
  moreover have "constant_formula p'" using assms(2) by (rule swapTokens_formula)
  moreover have "constantK p' = constantK p" using assms(2) by (rule swapTokens_constantK)
  ultimately show ?thesis by (simp add: constant_formula_def)
qed

theorem swap_product_monotone_witness:
  "reachable pool1
   \<and> pool_of (swapTokens funded bob tokA tokB 100 200 pool1) = Inr pool1_swapped
   \<and> unat (reserve1 pool1) * unat (reserve2 pool1)
        \<le> unat (reserve1 pool1_swapped) * unat (reserve2 pool1_swapped)
   \<and> unat (reserve1 pool1) * unat (reserve2 pool1) = 40000"
proof -
  from swap_100 obtain g' where
    s: "swapTokens funded bob tokA tokB 100 200 pool1 = Inr (g', pool1_swapped)"
    by (auto simp: pool_of_Inr)
  have "unat (reserve1 pool1) * unat (reserve2 pool1) = 40000"
    by (simp add: pool1_def pool0_def NebuPool_def)
  with swap_product_monotone [OF reachable_pool1 s] reachable_pool1 swap_100
  show ?thesis by blast
qed

section \<open>Swaps\<close>

text \<open>
  C2, as stated: with reserves \<open>(110, 440)\<close> and \<open>K = 48400\<close>, a swap of 10 units of the
  first asset with a requested output of 37 succeeds and leaves the reserves at
  \<open>(120, 403)\<close>. It does not: the call reverts at the check of the product.
\<close>

theorem swap_scenario3_counterexample:
  "reachable pool2
   \<and> reserve1 pool2 = 110 \<and> reserve2 pool2 = 440 \<and> constantK pool2 = 48400
   \<and> swapTokens funded bob tokA tokB 10 37 pool2 = Inl InvariantViolation"
  using reachable_pool2
  by (simp add: op_defs scenario_defs pool1_def pool2_def Let_def)

lemma quote_scenario3:
  assumes "reserve1 p = 110" "reserve2 p = 440" "constantK p = 48400"
  shows "swap_expectedAmount p (token1 p) 10 = Inr 37"
  using assms
  by (simp add: swap_expectedAmount_def checked_add_def checked_div_def checked_sub_def)

lemma getExpectedOutput_token1:
  "getExpectedOutput p (token1 p) ai = (if 0 < ai then swap_expectedAmount p (token1 p) ai else Inl ZeroAmount)"
  by (simp add: getExpectedOutput_def swap_expectedAmount_def)

lemma check_scenario3:
  assumes "reserve1 p = 110" "reserve2 p = 440" "constantK p = 48400"
  shows "\<exists>p1. swap_reserves p (token1 p) (token2 p) 10 37 = Inr p1
           \<and> checked_mul (reserve1 p1) (reserve2 p1) = Inr 48360 \<and> constantK p1 = 48400"
  using assms
  by (simp add: swap_reserves_def checked_add_def checked_sub_def checked_mul_def)

text \<open>
  C2, amended: with reserves \<open>(110, 440)\<close> and \<open>K = 48400\<close>, the quote for 10 units of the
  first asset is \<open>440 - 48400 div 120 = 37\<close>; a swap of those 10 units never succeeds,
  whoever calls and whatever output is requested; when the request is between 1 and 37, the
  balances suffice and both transfers succeed, the call reverts at the final check of the product
  (\<open>120 * 403 = 48360\<close> is not \<open>48400\<close>), so the reserves stay \<open>(110, 440)\<close>.
\<close>

theorem swap_scenario3:
  assumes "reserve1 p = 110" "reserve2 p = 440" "constantK p = 48400"
  shows "getExpectedOutput p (token1 p) 10 = Inr 37
    \<and> isl (swapTokens g sender (token1 p) (token2 p) 10 amountOut p)
    \<and> (0 < amountOut \<and> amountOut \<le> 37
        \<and> 10 < balanceOf (g (token1 p)) sender
        \<and> amountOut < balanceOf (g (token2 p)) (pool_address p)
        \<and> transferFrom g (token1 p) (pool_address p) sender (pool_address p) 10 = Inr (True, g1)
        \<and> transfer g1 (token2 p) (pool_address p) sender 37 = Inr (True, g2)
        \<longrightarrow> swapTokens g sender (token1 p) (token2 p) 10 amountOut p = Inl InvariantViolation)"
proof (intro conjI impI)
  show "getExpectedOutput p (token1 p) 10 = Inr 37"
    using quote_scenario3 [OF assms] by (simp add: getExpectedOutput_token1)
next
  show "isl (swapTokens g sender (token1 p) (token2 p) 10 amountOut p)"
    unfolding swapTokens_def
    using check_scenario3 [OF assms]
    by (auto simp: quote_scenario3 [OF assms] isl_and_then)
next
  assume "0 < amountOut \<and> amountOut \<le> 37
        \<and> 10 < balanceOf (g (token1 p)) sender
        \<and> amountOut < balanceOf (g (token2 p)) (pool_address p)
        \<and> transferFrom g (token1 p) (pool_address p) sender (pool_address p) 10 = Inr (True, g1)
        \<and> transfer g1 (token2 p) (pool_address p) sender 37 = Inr (True, g2)"
  then show "swapTokens g sender (token1 p) (token2 p) 10 amountOut p = Inl InvariantViolation"
    unfolding swapTokens_def
    using check_scenario3 [OF assms]
    by (auto simp: quote_scenario3 [OF assms])
qed

theorem swap_scenario3_witness:
  "reserve1 pool2 = 110 \<and> reserve2 pool2 = 440 \<and> constantK pool2 = 48400
   \<and> getExpectedOutput pool2 tokA 10 = Inr 37
   \<and> (0::uint256) < 37 \<and> 10 < balanceOf (funded tokA) bob \<and> 37 < balanceOf (funded tokB) poolAB
   \<and> swapTokens funded bob tokA tokB 10 37 pool2 = Inl InvariantViolation"
proof -
  have r: "reserve1 pool2 = 110" "reserve2 pool2 = 440" "constantK pool2 = 48400"
    and t: "token1 pool2 = tokA" "token2 pool2 = tokB" "pool_address pool2 = poolAB"
    by (simp_all add: pool2_def pool1_def pool0_def NebuPool_def)
  obtain g1 where g1: "transferFrom funded tokA poolAB bob poolAB 10 = Inr (True, g1)"
    by (simp add: op_defs scenario_defs)
  have "\<exists>g2. transfer g1 tokB poolAB bob 37 = Inr (True, g2)"
    using g1 by (auto simp: op_defs scenario_defs)
  then obtain g2 where g2: "transfer g1 tokB poolAB bob 37 = Inr (True, g2)" ..
  have b: "10 < balanceOf (funded tokA) bob" "37 < balanceOf (funded tokB) poolAB"
    by (simp_all add: scenario_defs)
  from swap_scenario3 [OF r, of funded bob 37 g1 g2] r t g1 g2 b
  show ?thesis by simp
qed

text \<open>
  C3: both trade directions are supported. The pair validation of \<open>swapTokens\<close> tests
  the direction first asset to second asset twice, so a swap from the second asset is
  rejected, although the quote and the reserve update handle that direction. On the pool
  with reserves \<open>(100, 400)\<close>, 400 units of the second asset are quoted at 50 units of the
  first (an exact trade: \<open>50 * 800 = 40000\<close>), and the swap fails \<open>InvalidAsset\<close>.
\<close>

theorem swap_reverse_direction_rejected:
  "getExpectedOutput pool1 tokB 400 = Inr 50
   \<and> swapTokens funded bob tokA tokB 100 200 pool1 \<noteq> Inl InvalidAsset
   \<and> swapTokens funded bob tokB tokA 400 50 pool1 = Inl InvalidAsset"
  by (simp add: op_defs scenario_defs pool1_def Let_def)

text \<open>The same for every pool of two different assets and every amount.\<close>

lemma swap_from_token2_rejected:
  "token1 p \<noteq> token2 p \<Longrightarrow> 0 < ai \<Longrightarrow> 0 < ao \<Longrightarrow>
     swapTokens g sender (token2 p) tt ai ao p = Inl InvalidAsset"
  by (auto simp: swapTokens_def)

section \<open>Deposits\<close>

lemma first_amounts_Inr:
  assumes "totalSupply (liquidityToken p) = 0"
  shows "addLiquidity_amounts p a1 a2 = Inr (liquidity, p1) \<longleftrightarrow>
     unat a1 * unat a2 < 2 ^ 256 \<and> liquidity = Math_sqrt (a1 * a2) \<and> 0 < liquidity
     \<and> p1 = p\<lparr>reserve1 := a1, reserve2 := a2\<rparr>"
  using assms
  by (auto simp: addLiquidity_amounts_def Let_def and_then_eq_Inr checked_mul_Inr)

lemma unat_sqrt_product:
  "unat a1 * unat a2 < 2 ^ 256 \<Longrightarrow> unat (Math_sqrt (a1 * a2)) = sqrt_nat (unat a1 * unat a2)"
  using unat_mult_lem [of a1 a2] by (simp add: unat_Math_sqrt)

lemma sqrt_nat_pos: "0 < n \<Longrightarrow> 0 < sqrt_nat n"
  using sqrt_nat_bounds [of n] by (cases "sqrt_nat n") auto

lemma first_deposit_succeeds:
  assumes adm: "admin (liquidityToken p) = pool_address p"
    and ts: "totalSupply (liquidityToken p) = 0"
    and pos: "0 < a1" "0 < a2" and fit: "unat a1 * unat a2 < 2 ^ 256"
    and t1: "transferFrom g (token1 p) (pool_address p) sender (pool_address p) a1 = Inr (ok1, g1)"
    and t2: "transferFrom g1 (token2 p) (pool_address p) sender (pool_address p) a2 = Inr (ok2, g2)"
  shows "\<exists>p'. addLiquidity g sender a1 a2 p = Inr (g2, p')"
proof -
  let ?l = "Math_sqrt (a1 * a2)"
  from pos have "0 < unat a1 * unat a2" by (simp add: unat_gt_0 word_greater_zero_iff)
  then have "0 < sqrt_nat (unat a1 * unat a2)" by (rule sqrt_nat_pos)
  then have lpos: "0 < ?l" using unat_sqrt_product [OF fit] by (simp add: word_less_nat_alt)
  have am: "addLiquidity_amounts p a1 a2 = Inr (?l, p\<lparr>reserve1 := a1, reserve2 := a2\<rparr>)"
    using fit lpos by (simp add: first_amounts_Inr [OF ts])
  have k: "checked_mul a1 a2 = Inr (a1 * a2)" using fit by (simp add: checked_mul_def)
  have kpos: "0 < a1 * a2"
    using \<open>0 < unat a1 * unat a2\<close> unat_mult_lem [of a1 a2] fit by (simp add: word_less_nat_alt)
  from pos have nz: "a1 \<noteq> 0" "a2 \<noteq> 0" by (simp_all add: word_greater_zero_iff)
  show ?thesis
    using adm t1 t2 am k kpos nz ts unat_lt_2p256 [of ?l]
    by (auto simp add: addLiquidity_def mint_def erc20_mint_def checked_add_def
        updateConstantFormula_def)
qed

text \<open>
  C4. On a pool whose liquidity token has no supply: a successful \<open>addLiquidity\<close> mints
  the floor of the square root of \<open>amountToken1 * amountToken2\<close> to the provider, and sets
  the reserves to exactly the two amounts; when that root is 0 and neither transfer
  reverts, the call fails \<open>InsufficientInitialLiquidity\<close>; and with two positive amounts
  whose product fits 256 bits the call succeeds when neither transfer reverts (the pool
  being the admin of its token, as every reachable pool is).
\<close>

theorem addLiquidity_first_deposit:
  assumes ts: "totalSupply (liquidityToken p) = 0"
  shows "(addLiquidity g sender a1 a2 p = Inr (g', p') \<longrightarrow>
            minted_shares p p' = sqrt_nat (unat a1 * unat a2)
          \<and> 0 < minted_shares p p'
          \<and> balanceOf (liquidityToken p') sender
              = balanceOf (liquidityToken p) sender + Math_sqrt (a1 * a2)
          \<and> reserve1 p' = a1 \<and> reserve2 p' = a2
          \<and> events p' = events p @ [LiquidityAdded sender a1 a2 (Math_sqrt (a1 * a2))])
     \<and> (sqrt_nat (unat a1 * unat a2) = 0
          \<and> transferFrom g (token1 p) (pool_address p) sender (pool_address p) a1 = Inr (ok1, g1)
          \<and> transferFrom g1 (token2 p) (pool_address p) sender (pool_address p) a2 = Inr (ok2, g2)
          \<longrightarrow> addLiquidity g sender a1 a2 p = Inl InsufficientInitialLiquidity)
     \<and> (admin (liquidityToken p) = pool_address p
          \<and> 0 < a1 \<and> 0 < a2 \<and> unat a1 * unat a2 < 2 ^ 256
          \<and> transferFrom g (token1 p) (pool_address p) sender (pool_address p) a1 = Inr (ok1, g1)
          \<and> transferFrom g1 (token2 p) (pool_address p) sender (pool_address p) a2 = Inr (ok2, g2)
          \<longrightarrow> (\<exists>q. addLiquidity g sender a1 a2 p = Inr (g2, q)))"
proof (intro conjI impI)
  assume ok: "addLiquidity g sender a1 a2 p = Inr (g', p')"
  from addLiquidity_InrD [OF ok] obtain liquidity p1 l k where
    am: "addLiquidity_amounts p a1 a2 = Inr (liquidity, p1)"
    and m: "mint (liquidityToken p1) (pool_address p1) sender liquidity = Inr l"
    and p': "p' = p1\<lparr>liquidityToken := l, constantK := k,
              events := events p1 @ [LiquidityAdded sender a1 a2 liquidity]\<rparr>"
    by blast
  from am have fit: "unat a1 * unat a2 < 2 ^ 256" and liq: "liquidity = Math_sqrt (a1 * a2)"
    and lpos: "0 < liquidity" and p1: "p1 = p\<lparr>reserve1 := a1, reserve2 := a2\<rparr>"
    using first_amounts_Inr [OF ts] by blast+
  from m p1 ts have l: "l = (liquidityToken p)\<lparr>totalSupply := liquidity,
      balanceOf := (balanceOf (liquidityToken p))
        (sender := balanceOf (liquidityToken p) sender + liquidity)\<rparr>"
    by (simp add: mint_Inr)
  have u: "unat liquidity = sqrt_nat (unat a1 * unat a2)"
    unfolding liq using fit by (rule unat_sqrt_product)
  show "minted_shares p p' = sqrt_nat (unat a1 * unat a2)"
    using u by (simp add: minted_shares_def p' l ts)
  show "0 < minted_shares p p'"
    using lpos by (simp add: minted_shares_def p' l ts unat_gt_0)
  show "balanceOf (liquidityToken p') sender
          = balanceOf (liquidityToken p) sender + Math_sqrt (a1 * a2)"
    by (simp add: p' l liq)
  show "reserve1 p' = a1" by (simp add: p' p1)
  show "reserve2 p' = a2" by (simp add: p' p1)
  show "events p' = events p @ [LiquidityAdded sender a1 a2 (Math_sqrt (a1 * a2))]"
    by (simp add: p' p1 liq)
next
  assume a: "sqrt_nat (unat a1 * unat a2) = 0
          \<and> transferFrom g (token1 p) (pool_address p) sender (pool_address p) a1 = Inr (ok1, g1)
          \<and> transferFrom g1 (token2 p) (pool_address p) sender (pool_address p) a2 = Inr (ok2, g2)"
  then have "\<not> 0 < unat a1 * unat a2"
    using sqrt_nat_pos [of "unat a1 * unat a2"] by linarith
  then have z: "unat a1 * unat a2 = 0" by blast
  have fit: "unat a1 * unat a2 < 2 ^ 256" unfolding z by simp
  have "unat (Math_sqrt (a1 * a2)) = 0"
    using unat_sqrt_product [OF fit] a by simp
  then have "Math_sqrt (a1 * a2) = 0" by (simp add: unat_eq_0)
  then have "addLiquidity_amounts p a1 a2 = Inl InsufficientInitialLiquidity"
    using ts fit by (simp add: addLiquidity_amounts_def checked_mul_def)
  with a show "addLiquidity g sender a1 a2 p = Inl InsufficientInitialLiquidity"
    by (simp add: addLiquidity_def)
next
  assume "admin (liquidityToken p) = pool_address p
          \<and> 0 < a1 \<and> 0 < a2 \<and> unat a1 * unat a2 < 2 ^ 256
          \<and> transferFrom g (token1 p) (pool_address p) sender (pool_address p) a1 = Inr (ok1, g1)
          \<and> transferFrom g1 (token2 p) (pool_address p) sender (pool_address p) a2 = Inr (ok2, g2)"
  then show "\<exists>q. addLiquidity g sender a1 a2 p = Inr (g2, q)"
    using first_deposit_succeeds [OF _ ts] by blast
qed

theorem addLiquidity_first_deposit_witness:
  "totalSupply (liquidityToken pool0) = 0
   \<and> pool_of (addLiquidity funded alice 100 400 pool0) = Inr pool1
   \<and> minted_shares pool0 pool1 = 200
   \<and> getReserves pool1 = (100, 400)
   \<and> sqrt_nat (unat (0 :: uint256) * unat (400 :: uint256)) = 0
   \<and> addLiquidity funded alice 0 400 pool0 = Inl InsufficientInitialLiquidity"
proof -
  have ts: "totalSupply (liquidityToken pool0) = 0" by (simp add: scenario_defs)
  note T = addLiquidity_first_deposit [OF ts]
  have tk: "token1 pool0 = tokA" "token2 pool0 = tokB" "pool_address pool0 = poolAB"
    by (simp_all add: scenario_defs)
  from first_deposit obtain g' where
    ok: "addLiquidity funded alice 100 400 pool0 = Inr (g', pool1)"
    by (auto simp: pool_of_Inr)
  have "sqrt_nat 40000 = 200" by (rule sqrt_nat_unique) simp_all
  with T [of funded alice 100 400 g' pool1] ok
  have a: "minted_shares pool0 pool1 = 200" "reserve1 pool1 = 100" "reserve2 pool1 = 400"
    by simp_all
  obtain ok1 g1 where g1: "transferFrom funded tokA poolAB alice poolAB 0 = Inr (ok1, g1)"
    by (simp add: op_defs scenario_defs)
  have "\<exists>ok2 g2. transferFrom g1 tokB poolAB alice poolAB 400 = Inr (ok2, g2)"
    using g1 by (auto simp: op_defs scenario_defs)
  then obtain ok2 g2 where g2: "transferFrom g1 tokB poolAB alice poolAB 400 = Inr (ok2, g2)"
    by blast
  have z: "sqrt_nat (unat (0 :: uint256) * unat (400 :: uint256)) = 0"
    by (simp add: sqrt_nat_small)
  from T [of funded alice 0 400 _ _ ok1 g1 ok2 g2] z g1 g2 tk
  have b: "addLiquidity funded alice 0 400 pool0 = Inl InsufficientInitialLiquidity"
    by simp
  from ts first_deposit a z b show ?thesis by (simp add: getReserves_def)
qed

text \<open>
  A successful later deposit mints the smaller of the two share computations, each rounded
  down, and adds both amounts to the reserves in full.
\<close>

lemma later_amounts_Inr:
  assumes "totalSupply (liquidityToken p) \<noteq> 0"
    and "addLiquidity_amounts p a1 a2 = Inr (liquidity, p1)"
  shows "unat liquidity =
           min (unat a1 * unat (totalSupply (liquidityToken p)) div unat (reserve1 p))
               (unat a2 * unat (totalSupply (liquidityToken p)) div unat (reserve2 p))"
    and "p1 = p\<lparr>reserve1 := reserve1 p + a1, reserve2 := reserve2 p + a2\<rparr>"
    and "unat (reserve1 p + a1) = unat (reserve1 p) + unat a1"
    and "unat (reserve2 p + a2) = unat (reserve2 p) + unat a2"
proof -
  let ?ts = "totalSupply (liquidityToken p)"
  from assms obtain x1 l1 x2 l2 where
    x1: "checked_mul a1 ?ts = Inr x1" and l1: "checked_div x1 (reserve1 p) = Inr l1"
    and x2: "checked_mul a2 ?ts = Inr x2" and l2: "checked_div x2 (reserve2 p) = Inr l2"
    and l: "liquidity = Math_min l1 l2"
    and r1: "checked_add (reserve1 p) a1 = Inr (reserve1 p + a1)"
    and r2: "checked_add (reserve2 p) a2 = Inr (reserve2 p + a2)"
    and p1: "p1 = p\<lparr>reserve1 := reserve1 p + a1, reserve2 := reserve2 p + a2\<rparr>"
    by (auto simp: addLiquidity_amounts_def Let_def and_then_eq_Inr checked_add_Inr)
  have u1: "unat l1 = unat a1 * unat ?ts div unat (reserve1 p)"
    using unat_checked_div [OF l1] unat_checked_mul [OF x1] by simp
  have u2: "unat l2 = unat a2 * unat ?ts div unat (reserve2 p)"
    using unat_checked_div [OF l2] unat_checked_mul [OF x2] by simp
  have "unat (Math_min l1 l2) = min (unat l1) (unat l2)"
    by (simp add: Math_min_def word_less_nat_alt min_def)
  with u1 u2 l show "unat liquidity =
           min (unat a1 * unat ?ts div unat (reserve1 p))
               (unat a2 * unat ?ts div unat (reserve2 p))" by simp
  show "p1 = p\<lparr>reserve1 := reserve1 p + a1, reserve2 := reserve2 p + a2\<rparr>" by (rule p1)
  show "unat (reserve1 p + a1) = unat (reserve1 p) + unat a1" using r1 by (rule unat_checked_add)
  show "unat (reserve2 p + a2) = unat (reserve2 p) + unat a2" using r2 by (rule unat_checked_add)
qed

lemma addLiquidity_later_deposit:
  assumes ts: "totalSupply (liquidityToken p) \<noteq> 0"
    and ok: "addLiquidity g sender a1 a2 p = Inr (g', p')"
  shows "minted_shares p p' =
           min (unat a1 * unat (totalSupply (liquidityToken p)) div unat (reserve1 p))
               (unat a2 * unat (totalSupply (liquidityToken p)) div unat (reserve2 p))"
    and "unat (reserve1 p') = unat (reserve1 p) + unat a1"
    and "unat (reserve2 p') = unat (reserve2 p) + unat a2"
proof -
  from addLiquidity_InrD [OF ok] obtain liquidity p1 l k where
    am: "addLiquidity_amounts p a1 a2 = Inr (liquidity, p1)"
    and m: "mint (liquidityToken p1) (pool_address p1) sender liquidity = Inr l"
    and p': "p' = p1\<lparr>liquidityToken := l, constantK := k,
              events := events p1 @ [LiquidityAdded sender a1 a2 liquidity]\<rparr>"
    by blast
  note a = later_amounts_Inr [OF ts am]
  from m have "unat (totalSupply l) = unat (totalSupply (liquidityToken p1)) + unat liquidity"
    using unat_add_lem [of "totalSupply (liquidityToken p1)" liquidity] by (simp add: mint_Inr)
  then have "minted_shares p p' = unat liquidity"
    by (simp add: minted_shares_def p' a(2))
  with a(1) show "minted_shares p p' =
           min (unat a1 * unat (totalSupply (liquidityToken p)) div unat (reserve1 p))
               (unat a2 * unat (totalSupply (liquidityToken p)) div unat (reserve2 p))" by simp
  show "unat (reserve1 p') = unat (reserve1 p) + unat a1" using a(3) by (simp add: p' a(2))
  show "unat (reserve2 p') = unat (reserve2 p) + unat a2" using a(4) by (simp add: p' a(2))
qed


text \<open>
  C5: a later deposit whose share computation gives 0 fails \<open>ZeroSharesMinted\<close>. Only the
  first-deposit branch of \<open>addLiquidity\<close> checks the minted amount. On the pool with
  reserves \<open>(100, 400)\<close> and 200 shares, \<open>addLiquidity(1, 1)\<close> computes
  \<open>min (1 * 200 div 100) (1 * 200 div 400) = 0\<close>, succeeds, takes both units into the
  reserves and mints nothing.
\<close>

theorem later_deposit_mints_nothing:
  "totalSupply (liquidityToken pool1) = 200
   \<and> Math_min (1 * 200 div reserve1 pool1) (1 * 200 div reserve2 pool1) = 0
   \<and> pool_of (addLiquidity funded alice 1 1 pool1) = Inr pool1_dust
   \<and> liquidityToken pool1_dust = liquidityToken pool1
   \<and> getReserves pool1_dust = (101, 401)"
  by (simp add: op_defs scenario_defs pool1_def pool1_dust_def Let_def getReserves_def)

section \<open>Withdrawals\<close>

text \<open>
  C6, as stated: a provider who holds the shares is paid out. In the pool that a first
  deposit of \<open>2 ^ 254\<close> and 1 creates, the provider holds all \<open>2 ^ 127\<close> shares, and
  removing them fails: the checked product \<open>liquidity * reserve1\<close> overflows.
\<close>

theorem removeLiquidity_overflow_counterexample:
  "reachable pool_big
   \<and> 0 < totalSupply (liquidityToken pool_big)
   \<and> \<not> balanceOf (liquidityToken pool_big) alice < 2 ^ 127
   \<and> removeLiquidity whale alice (2 ^ 127) pool_big = Inl ArithmeticError"
  using reachable_pool_big
  by (simp add: op_defs scenario_defs whale_def pool_big_def Let_def)

lemma removeLiquidity_succeeds_reachable:
  assumes r: "reachable p"
    and ts: "0 < totalSupply (liquidityToken p)"
    and f1: "unat liquidity * unat (reserve1 p) < 2 ^ 256"
    and f2: "unat liquidity * unat (reserve2 p) < 2 ^ 256"
    and bal: "liquidity \<le> balanceOf (liquidityToken p) sender"
    and t1: "transfer g (token1 p) (pool_address p) sender
               (liquidity * reserve1 p div totalSupply (liquidityToken p)) = Inr (ok1, g1)"
    and t2: "transfer g1 (token2 p) (pool_address p) sender
               (liquidity * reserve2 p div totalSupply (liquidityToken p)) = Inr (ok2, g2)"
  shows "\<exists>q. removeLiquidity g sender liquidity p = Inr (g2, q)"
proof -
  have adm: "admin (liquidityToken p) = pool_address p" using r by (rule reachable_admin)
  have "balanceOf (liquidityToken p) sender \<le> totalSupply (liquidityToken p)"
    using reachable_consistent [OF r] by (rule supply_consistent_le)
  with bal have le: "liquidity \<le> totalSupply (liquidityToken p)" by simp
  have "unat (constantK p) = unat (reserve1 p) * unat (reserve2 p)"
    using reachable_formula [OF r] by (simp add: constant_formula_def)
  then have k: "unat (reserve1 p) * unat (reserve2 p) < 2 ^ 256"
    using unat_lt_2p256 [of "constantK p"] by simp
  from adm ts f1 f2 bal le k t1 t2 show ?thesis by (rule removeLiquidity_succeeds)
qed

text \<open>
  The answer of the two transfers is not looked at: with asset tokens that answer false,
  the shares are burnt and the reserves decreased while nothing moves.
\<close>

lemma removeLiquidity_unchecked_transfer:
  "\<not> transfer_ok (transfer silent tokA poolAB alice 25)
   \<and> pool_of (removeLiquidity silent alice 50 pool1) = Inr pool1_removed"
  by (simp add: op_defs scenario_defs silent_def pool1_def pool1_removed_def Let_def)

text \<open>
  C6, amended. \<open>removeLiquidity\<close> fails \<open>NoLiquidity\<close> when the total supply is 0;
  otherwise it fails with an arithmetic error when \<open>liquidity * reserve1\<close> or
  \<open>liquidity * reserve2\<close> does not fit 256 bits; otherwise, on a reachable pool, it fails
  \<open>InsufficientShares\<close> when the provider's balance is below \<open>liquidity\<close>; otherwise,
  on a reachable pool, it succeeds when the two transfers to the provider succeed.
  Whenever it succeeds it has burnt \<open>liquidity\<close> shares of the provider, decreased the
  reserves by exactly \<open>liquidity * reserve div totalSupply\<close> of each asset, rounded down,
  and called the asset tokens' \<open>transfer\<close> to the provider with exactly those amounts.
\<close>

theorem removeLiquidity_cases:
  "(totalSupply (liquidityToken p) = 0 \<longrightarrow>
      removeLiquidity g sender liquidity p = Inl NoLiquidity)
   \<and> (0 < totalSupply (liquidityToken p)
        \<and> (2 ^ 256 \<le> unat liquidity * unat (reserve1 p)
             \<or> 2 ^ 256 \<le> unat liquidity * unat (reserve2 p)) \<longrightarrow>
      removeLiquidity g sender liquidity p = Inl ArithmeticError)
   \<and> (reachable p
        \<and> 0 < totalSupply (liquidityToken p)
        \<and> unat liquidity * unat (reserve1 p) < 2 ^ 256
        \<and> unat liquidity * unat (reserve2 p) < 2 ^ 256
        \<and> balanceOf (liquidityToken p) sender < liquidity \<longrightarrow>
      removeLiquidity g sender liquidity p = Inl InsufficientShares)
   \<and> (removeLiquidity g sender liquidity p = Inr (g', p') \<longrightarrow>
        (\<exists>amountToken1 amountToken2 ok1 g1 ok2.
            unat amountToken1 = share_of liquidity (reserve1 p) (totalSupply (liquidityToken p))
          \<and> unat amountToken2 = share_of liquidity (reserve2 p) (totalSupply (liquidityToken p))
          \<and> transfer g (token1 p) (pool_address p) sender amountToken1 = Inr (ok1, g1)
          \<and> transfer g1 (token2 p) (pool_address p) sender amountToken2 = Inr (ok2, g')
          \<and> events p' = events p @ [LiquidityRemoved sender amountToken1 amountToken2 liquidity])
      \<and> burn (liquidityToken p) (pool_address p) sender liquidity = Inr (liquidityToken p')
      \<and> share_of liquidity (reserve1 p) (totalSupply (liquidityToken p)) \<le> unat (reserve1 p)
      \<and> share_of liquidity (reserve2 p) (totalSupply (liquidityToken p)) \<le> unat (reserve2 p)
      \<and> unat (reserve1 p') =
          unat (reserve1 p) - share_of liquidity (reserve1 p) (totalSupply (liquidityToken p))
      \<and> unat (reserve2 p') =
          unat (reserve2 p) - share_of liquidity (reserve2 p) (totalSupply (liquidityToken p)))
   \<and> (reachable p
        \<and> 0 < totalSupply (liquidityToken p)
        \<and> unat liquidity * unat (reserve1 p) < 2 ^ 256
        \<and> unat liquidity * unat (reserve2 p) < 2 ^ 256
        \<and> liquidity \<le> balanceOf (liquidityToken p) sender
        \<and> transfer g (token1 p) (pool_address p) sender
              (liquidity * reserve1 p div totalSupply (liquidityToken p)) = Inr (True, h1)
        \<and> transfer h1 (token2 p) (pool_address p) sender
              (liquidity * reserve2 p div totalSupply (liquidityToken p)) = Inr (True, h2) \<longrightarrow>
      (\<exists>q. removeLiquidity g sender liquidity p = Inr (h2, q)))"
  (is "?none \<and> ?overflow \<and> ?shares \<and> ?paid \<and> ?succeeds")
proof (intro conjI)
  show ?none by (simp add: removeLiquidity_def)
  show ?overflow
    by (auto simp: removeLiquidity_def Let_def checked_mul_def checked_div_def
        word_greater_zero_iff)
  show ?shares
    using reachable_admin [of p]
    by (auto simp: removeLiquidity_def Let_def checked_mul_def checked_div_def burn_def
        erc20_burn_def word_greater_zero_iff)
  show ?succeeds
    using removeLiquidity_succeeds_reachable [of p liquidity sender g True h1 True h2] by blast
  show ?paid
  proof
    let ?ts = "totalSupply (liquidityToken p)"
    let ?A1 = "liquidity * reserve1 p div ?ts" and ?A2 = "liquidity * reserve2 p div ?ts"
    assume "removeLiquidity g sender liquidity p = Inr (g', p')"
    from removeLiquidity_InrD [OF this] obtain l k ok1 g1 ok2 where
      f1: "unat liquidity * unat (reserve1 p) < 2 ^ 256"
      and f2: "unat liquidity * unat (reserve2 p) < 2 ^ 256"
      and b: "burn (liquidityToken p) (pool_address p) sender liquidity = Inr l"
      and a1: "?A1 \<le> reserve1 p" and a2: "?A2 \<le> reserve2 p"
      and p': "p' = p\<lparr>liquidityToken := l, reserve1 := reserve1 p - ?A1,
             reserve2 := reserve2 p - ?A2, constantK := k,
             events := events p @ [LiquidityRemoved sender ?A1 ?A2 liquidity]\<rparr>"
      and t1: "transfer g (token1 p) (pool_address p) sender ?A1 = Inr (ok1, g1)"
      and t2: "transfer g1 (token2 p) (pool_address p) sender ?A2 = Inr (ok2, g')"
      by blast
    note u1 = unat_share [OF f1, of ?ts] and u2 = unat_share [OF f2, of ?ts]
    have ex: "\<exists>amountToken1 amountToken2 ok1 g1 ok2.
            unat amountToken1 = share_of liquidity (reserve1 p) ?ts
          \<and> unat amountToken2 = share_of liquidity (reserve2 p) ?ts
          \<and> transfer g (token1 p) (pool_address p) sender amountToken1 = Inr (ok1, g1)
          \<and> transfer g1 (token2 p) (pool_address p) sender amountToken2 = Inr (ok2, g')
          \<and> events p' = events p @ [LiquidityRemoved sender amountToken1 amountToken2 liquidity]"
      using u1 u2 t1 t2 p' by (intro exI [of _ ?A1] exI [of _ ?A2] exI [of _ ok1] exI [of _ g1] exI [of _ ok2]) simp
    have bl: "burn (liquidityToken p) (pool_address p) sender liquidity = Inr (liquidityToken p')"
      using b by (simp add: p')
    have le1: "share_of liquidity (reserve1 p) ?ts \<le> unat (reserve1 p)"
      using a1 u1 by (simp add: word_le_nat_alt)
    have le2: "share_of liquidity (reserve2 p) ?ts \<le> unat (reserve2 p)"
      using a2 u2 by (simp add: word_le_nat_alt)
    have r1: "unat (reserve1 p') = unat (reserve1 p) - share_of liquidity (reserve1 p) ?ts"
      using a1 u1 by (simp add: p' unat_sub)
    have r2: "unat (reserve2 p') = unat (reserve2 p) - share_of liquidity (reserve2 p) ?ts"
      using a2 u2 by (simp add: p' unat_sub)
    from ex bl le1 le2 r1 r2
    show "(\<exists>amountToken1 amountToken2 ok1 g1 ok2.
            unat amountToken1 = share_of liquidity (reserve1 p) ?ts
          \<and> unat amountToken2 = share_of liquidity (reserve2 p) ?ts
          \<and> transfer g (token1 p) (pool_address p) sender amountToken1 = Inr (ok1, g1)
          \<and> transfer g1 (token2 p) (pool_address p) sender amountToken2 = Inr (ok2, g')
          \<and> events p' = events p @ [LiquidityRemoved sender amountToken1 amountToken2 liquidity])
      \<and> burn (liquidityToken p) (pool_address p) sender liquidity = Inr (liquidityToken p')
      \<and> share_of liquidity (reserve1 p) ?ts \<le> unat (reserve1 p)
      \<and> share_of liquidity (reserve2 p) ?ts \<le> unat (reserve2 p)
      \<and> unat (reserve1 p') = unat (reserve1 p) - share_of liquidity (reserve1 p) ?ts
      \<and> unat (reserve2 p') = unat (reserve2 p) - share_of liquidity (reserve2 p) ?ts"
      by blast
  qed
qed

theorem removeLiquidity_cases_witness:
  "removeLiquidity funded alice 50 pool0 = Inl NoLiquidity
   \<and> removeLiquidity whale alice (2 ^ 127) pool_big = Inl ArithmeticError
   \<and> removeLiquidity funded bob 50 pool1 = Inl InsufficientShares
   \<and> pool_of (removeLiquidity funded alice 50 pool1) = Inr pool1_removed
   \<and> share_of 50 (reserve1 pool1) (totalSupply (liquidityToken pool1)) = 25
   \<and> share_of 50 (reserve2 pool1) (totalSupply (liquidityToken pool1)) = 100
   \<and> unat (reserve1 pool1_removed) = 100 - 25
   \<and> unat (reserve2 pool1_removed) = 400 - 100"
proof -
  note T = removeLiquidity_cases
  have "totalSupply (liquidityToken pool0) = 0" by (simp add: scenario_defs)
  with T [of pool0 funded alice 50]
  have a: "removeLiquidity funded alice 50 pool0 = Inl NoLiquidity" by blast
  have "0 < totalSupply (liquidityToken pool_big)
        \<and> (2 ^ 256 \<le> unat (2 ^ 127 :: uint256) * unat (reserve1 pool_big)
             \<or> 2 ^ 256 \<le> unat (2 ^ 127 :: uint256) * unat (reserve2 pool_big))"
    by (simp add: pool_big_def scenario_defs)
  with T [of pool_big whale alice "2 ^ 127"]
  have b: "removeLiquidity whale alice (2 ^ 127) pool_big = Inl ArithmeticError" by blast
  have "reachable pool1
        \<and> 0 < totalSupply (liquidityToken pool1)
        \<and> unat (50 :: uint256) * unat (reserve1 pool1) < 2 ^ 256
        \<and> unat (50 :: uint256) * unat (reserve2 pool1) < 2 ^ 256
        \<and> balanceOf (liquidityToken pool1) bob < 50"
    using reachable_pool1 by (simp add: pool1_def scenario_defs)
  with T [of pool1 funded bob 50]
  have c: "removeLiquidity funded bob 50 pool1 = Inl InsufficientShares" by blast
  from partial_removal obtain g' where
    ok: "removeLiquidity funded alice 50 pool1 = Inr (g', pool1_removed)"
    by (auto simp: pool_of_Inr)
  have s: "share_of 50 (reserve1 pool1) (totalSupply (liquidityToken pool1)) = 25"
    "share_of 50 (reserve2 pool1) (totalSupply (liquidityToken pool1)) = 100"
    by (simp_all add: share_of_def pool1_def scenario_defs)
  from T [of pool1 funded alice 50 g' pool1_removed] ok s
  have d: "unat (reserve1 pool1_removed) = unat (reserve1 pool1) - 25"
    "unat (reserve2 pool1_removed) = unat (reserve2 pool1) - 100"
    by simp_all
  have r: "unat (reserve1 pool1) = 100" "unat (reserve2 pool1) = 400"
    by (simp_all add: pool1_def scenario_defs)
  from a b c d r s partial_removal show ?thesis by simp
qed


section \<open>The stored constant and the quote\<close>

text \<open>
  C8, as stated: the constant-product value is never stored, and every quote computes it
  from the current reserves. The pool stores it: \<open>addLiquidity\<close> writes \<open>constantK\<close>,
  and \<open>getExpectedOutput\<close> reads it, so that with the same reserves and another stored
  value the quote is another.
\<close>

theorem constantK_stored_counterexample:
  "constantK pool0 = 0
   \<and> pool_of (addLiquidity funded alice 100 400 pool0) = Inr pool1
   \<and> constantK pool1 = 40000
   \<and> getReserves (pool2\<lparr>constantK := 0\<rparr>) = getReserves pool2
   \<and> getExpectedOutput pool2 tokA 10 = Inr 37
   \<and> getExpectedOutput (pool2\<lparr>constantK := 0\<rparr>) tokA 10 = Inr 440"
  using first_deposit
  by (simp add: op_defs scenario_defs pool1_def pool2_def Let_def getReserves_def)

text \<open>
  C8, amended: the pool stores the constant product as \<open>constantK\<close>, and quotes read the
  stored value; in every reachable state the stored value is the product of the current
  reserves (as a number and as a \<open>uint256\<close>), so every quote is the one computed from
  the reserves at the time of the call.
\<close>

theorem quote_reads_stored_product:
  assumes "reachable p"
  shows "unat (constantK p) = unat (reserve1 p) * unat (reserve2 p)
       \<and> constantK p = reserve1 p * reserve2 p
       \<and> getExpectedOutput p fromToken amountIn = quote_from_reserves p fromToken amountIn"
proof -
  have f: "unat (constantK p) = unat (reserve1 p) * unat (reserve2 p)"
    using reachable_formula [OF assms] by (simp add: constant_formula_def)
  then have fit: "unat (reserve1 p) * unat (reserve2 p) < 2 ^ 256"
    using unat_lt_2p256 [of "constantK p"] by simp
  then have "unat (reserve1 p * reserve2 p) = unat (constantK p)"
    using f unat_mult_lem [of "reserve1 p" "reserve2 p"] by simp
  then have k: "reserve1 p * reserve2 p = constantK p" by (simp add: word_unat_eq_iff)
  have m1: "checked_mul (reserve1 p) (reserve2 p) = Inr (constantK p)"
    using fit k by (simp add: checked_mul_def)
  have m2: "checked_mul (reserve2 p) (reserve1 p) = Inr (constantK p)"
    using fit k by (simp add: checked_mul_def mult.commute)
  have "getExpectedOutput p fromToken amountIn = quote_from_reserves p fromToken amountIn"
    by (simp add: getExpectedOutput_def quote_from_reserves_def m1 m2 word_greater_zero_iff)
  with f k show ?thesis by simp
qed

theorem quote_reads_stored_product_witness:
  "reachable pool2 \<and> unat (constantK pool2) = 110 * 440
   \<and> getExpectedOutput pool2 tokA 10 = Inr 37
   \<and> quote_from_reserves pool2 tokA 10 = Inr 37"
proof -
  have q: "getExpectedOutput pool2 tokA 10 = Inr 37"
    by (simp add: op_defs scenario_defs pool1_def pool2_def)
  have r: "unat (reserve1 pool2) * unat (reserve2 pool2) = 110 * 440"
    by (simp add: scenario_defs pool1_def pool2_def)
  from quote_reads_stored_product [OF reachable_pool2, of tokA 10]
  have k: "unat (constantK pool2) = unat (reserve1 pool2) * unat (reserve2 pool2)"
    and e: "getExpectedOutput pool2 tokA 10 = quote_from_reserves pool2 tokA 10"
    by blast+
  from k r have "unat (constantK pool2) = 110 * 440" by (simp only:)
  moreover from e q have "quote_from_reserves pool2 tokA 10 = Inr 37" by (simp only:)
  ultimately show ?thesis using q reachable_pool2 by blast
qed

section \<open>The balance checks of a swap\<close>





section \<open>The registry\<close>

lemma create_AB:
  "createPairs poolAB NebuSwap tokA tokB ''A'' ''B'' = Inr (poolAB, pool0, registry1)"
  by (simp add: createPairs_def NebuSwap_def registry1_def scenario_defs Let_def)

lemma create_AC:
  "createPairs poolAC registry1 tokA tokC ''A'' ''C''
     = Inr (poolAC, NebuPool poolAC tokA tokC ''Liquidity-A-C'' ''LP-A-C'', registry2)"
  by (simp add: createPairs_def registry1_def registry2_def tokC_def poolAC_def
      scenario_defs Let_def)

lemma createPairs_InrD:
  assumes "createPairs np r t1 t2 n1 n2 = Inr (a, p, r')"
  shows "t1 \<noteq> t2" and "getPair r t1 t2 = 0" and "a = np"
    and "p = NebuPool np t1 t2 (''Liquidity-'' @ n1 @ ''-'' @ n2) (''LP-'' @ n1 @ ''-'' @ n2)"
    and "allPairs r' = allPairs r @ [np]"
    and "registry_events r' = registry_events r @ [PairCreated t1 t2 np]"
    and "getPair r' x y =
           (if (x = t1 \<and> y = t2) \<or> (x = t2 \<and> y = t1) then np else getPair r x y)"
proof -
  have c: "t1 \<noteq> t2 \<and> getPair r t1 t2 = 0"
    using assms by (cases "t1 = t2"; cases "getPair r t1 t2 = 0") (simp_all add: createPairs_def)
  then show "t1 \<noteq> t2" and "getPair r t1 t2 = 0" by simp_all
  from c assms have "a = np
    \<and> p = NebuPool np t1 t2 (''Liquidity-'' @ n1 @ ''-'' @ n2) (''LP-'' @ n1 @ ''-'' @ n2)
    \<and> r' = r\<lparr>getPair := (getPair r)(t1 := (getPair r t1)(t2 := np), t2 := (getPair r t2)(t1 := np)),
              allPairs := allPairs r @ [np],
              registry_events := registry_events r @ [PairCreated t1 t2 np]\<rparr>"
    by (auto simp: createPairs_def Let_def)
  then show "a = np"
    and "p = NebuPool np t1 t2 (''Liquidity-'' @ n1 @ ''-'' @ n2) (''LP-'' @ n1 @ ''-'' @ n2)"
    and "allPairs r' = allPairs r @ [np]"
    and "registry_events r' = registry_events r @ [PairCreated t1 t2 np]"
    and "getPair r' x y =
           (if (x = t1 \<and> y = t2) \<or> (x = t2 \<and> y = t1) then np else getPair r x y)"
    using c by auto
qed

lemma createPairs_stable:
  assumes "createPairs np r t1 t2 n1 n2 = Inr (a, p, r')"
    and "getPair r x y \<noteq> 0" and "getPair r y x \<noteq> 0"
  shows "getPair r' x y = getPair r x y \<and> getPair r' y x = getPair r y x"
proof -
  have z: "getPair r t1 t2 = 0" using assms(1) by (rule createPairs_InrD(2))
  have "\<not> (x = t1 \<and> y = t2)" "\<not> (x = t2 \<and> y = t1)"
    using z assms(2,3) by blast+
  then show ?thesis
    using createPairs_InrD(7) [OF assms(1), of x y] createPairs_InrD(7) [OF assms(1), of y x]
    by presburger
qed

lemma later_stable:
  assumes "later r1 r2" and "getPair r1 x y \<noteq> 0" and "getPair r1 y x \<noteq> 0"
  shows "getPair r2 x y = getPair r1 x y \<and> getPair r2 y x = getPair r1 y x"
  using assms
proof (induction rule: later.induct)
  case (now r)
  show ?case by simp
next
  case (after r r' new_pool t1 t2 n1 n2 a p r'')
  then have "getPair r' x y = getPair r x y \<and> getPair r' y x = getPair r y x" by simp
  with createPairs_stable [OF after.hyps(3), of x y] after.prems show ?case by simp
qed


lemma same_pair_sym: "same_pair e e' \<longleftrightarrow> same_pair e' e"
  by (cases e; cases e') auto

lemma one_pool_per_pair_snoc:
  "one_pool_per_pair (es @ [e]) \<longleftrightarrow>
     one_pool_per_pair es \<and> (\<forall>e' \<in> set es. \<not> same_pair e' e)"
  by (induction es) (auto simp: same_pair_sym [of e])

lemma createPairs_symmetric:
  assumes "createPairs np r t1 t2 n1 n2 = Inr (a, p, r')"
    and "\<And>x y. getPair r x y = getPair r y x"
  shows "getPair r' x y = getPair r' y x"
  using createPairs_InrD(7) [OF assms(1), of x y] createPairs_InrD(7) [OF assms(1), of y x]
    assms(2) [of x y]
  by presburger

lemma createPairs_registered:
  assumes c: "createPairs np r t1 t2 n1 n2 = Inr (a, p, r')" and np: "np \<noteq> 0"
    and old: "\<forall>e \<in> set (registry_events r). registered r e"
  shows "\<forall>e \<in> set (registry_events r'). registered r' e"
proof
  fix e assume "e \<in> set (registry_events r')"
  then have "e = PairCreated t1 t2 np \<or> e \<in> set (registry_events r)"
    by (auto simp: createPairs_InrD(6) [OF c])
  then show "registered r' e"
  proof
    assume "e = PairCreated t1 t2 np"
    then show ?thesis
      using np createPairs_InrD(7) [OF c, of t1 t2] createPairs_InrD(7) [OF c, of t2 t1]
      by simp
  next
    assume "e \<in> set (registry_events r)"
    with old have reg: "registered r e" by blast
    obtain x y q where e: "e = PairCreated x y q" by (cases e)
    with reg have "getPair r x y \<noteq> 0" "getPair r y x \<noteq> 0" by simp_all
    from createPairs_stable [OF c this] this show ?thesis by (simp add: e)
  qed
qed

lemma createPairs_fresh_pair:
  assumes c: "createPairs np r t1 t2 n1 n2 = Inr (a, p, r')"
    and reg: "registered r e"
  shows "\<not> same_pair e (PairCreated t1 t2 np)"
proof -
  obtain x y q where e: "e = PairCreated x y q" by (cases e)
  with reg have "getPair r x y \<noteq> 0" "getPair r y x \<noteq> 0" by simp_all
  moreover have "getPair r t1 t2 = 0" using c by (rule createPairs_InrD(2))
  ultimately show ?thesis unfolding e by auto
qed

lemma registry_reachable_invariant: "registry_reachable r \<Longrightarrow> registry_invariant r"
proof (induction rule: registry_reachable.induct)
  case deployed
  show ?case by (simp add: registry_invariant_def NebuSwap_def)
next
  case (created r new_pool t1 t2 n1 n2 a p r')
  note c = created.hyps(3)
  from created.IH have sym: "\<And>x y. getPair r x y = getPair r y x"
    and reg: "\<forall>e \<in> set (registry_events r). registered r e"
    and one: "one_pool_per_pair (registry_events r)"
    and all: "allPairs r = map event_pool (registry_events r)"
    by (simp_all add: registry_invariant_def)
  have "\<forall>x y. getPair r' x y = getPair r' y x"
    using createPairs_symmetric [OF c sym] by blast
  moreover have "\<forall>e \<in> set (registry_events r'). registered r' e"
    using c created.hyps(2) reg by (rule createPairs_registered)
  moreover have "one_pool_per_pair (registry_events r')"
    using one reg createPairs_fresh_pair [OF c]
    by (simp add: createPairs_InrD(6) [OF c] one_pool_per_pair_snoc)
  moreover have "allPairs r' = map event_pool (registry_events r')"
    using all by (simp add: createPairs_InrD(5,6) [OF c])
  ultimately show ?case by (simp add: registry_invariant_def)
qed

lemma later_registry2: "later registry1 registry2"
proof -
  have "poolAC \<noteq> 0" by (simp add: poolAC_def)
  from later.after [OF later.now this create_AC] show ?thesis .
qed

lemma reachable_registry2: "registry_reachable registry2"
proof -
  have ne: "poolAB \<noteq> 0" "poolAC \<noteq> 0" by (simp_all add: poolAB_def poolAC_def)
  have "registry_reachable registry1"
    using registry_reachable.deployed ne(1) create_AB by (rule registry_reachable.created)
  then show ?thesis using ne(2) create_AC by (rule registry_reachable.created)
qed

text \<open>
  C7. \<open>createPairs(X, X)\<close> fails \<open>IdenticalAsset\<close>. After \<open>createPairs(X, Y)\<close> has
  succeeded, every later \<open>createPairs(X, Y)\<close> and \<open>createPairs(Y, X)\<close> fails
  \<open>DuplicatePair\<close>, and \<open>getPair(X, Y)\<close> and \<open>getPair(Y, X)\<close> both stay the pool
  created. In every reachable registry \<open>getPair\<close> is symmetric, no two pools were created
  for the same unordered pair, and \<open>allPairs\<close> lists exactly the pools created.
\<close>

theorem registry_unique_pairs:
  "createPairs np r X X n1 n2 = Inl IdenticalAsset
   \<and> (np \<noteq> 0 \<and> createPairs np r X Y n1 n2 = Inr (a, p, r1) \<and> later r1 r2 \<longrightarrow>
        createPairs np' r2 X Y m1 m2 = Inl DuplicatePair
      \<and> createPairs np' r2 Y X m1 m2 = Inl DuplicatePair
      \<and> getPair r2 X Y = a \<and> getPair r2 Y X = a)
   \<and> (registry_reachable r \<longrightarrow>
        getPair r X Y = getPair r Y X
      \<and> one_pool_per_pair (registry_events r)
      \<and> allPairs r = map event_pool (registry_events r))"
proof (intro conjI impI)
  show "createPairs np r X X n1 n2 = Inl IdenticalAsset" by (simp add: createPairs_def)
next
  assume h: "np \<noteq> 0 \<and> createPairs np r X Y n1 n2 = Inr (a, p, r1) \<and> later r1 r2"
  then have c: "createPairs np r X Y n1 n2 = Inr (a, p, r1)" and l: "later r1 r2"
    and np: "np \<noteq> 0" by simp_all
  have a: "a = np" and ne: "X \<noteq> Y" using c by (rule createPairs_InrD(3), rule createPairs_InrD(1))
  have e: "getPair r1 X Y = np" "getPair r1 Y X = np"
    using createPairs_InrD(7) [OF c, of X Y] createPairs_InrD(7) [OF c, of Y X] by simp_all
  with np have "getPair r1 X Y \<noteq> 0" "getPair r1 Y X \<noteq> 0" by simp_all
  from later_stable [OF l this] e
  have s: "getPair r2 X Y = np" "getPair r2 Y X = np" by simp_all
  show "getPair r2 X Y = a" "getPair r2 Y X = a" using s a by simp_all
  show "createPairs np' r2 X Y m1 m2 = Inl DuplicatePair"
    using s np ne by (simp add: createPairs_def)
  show "createPairs np' r2 Y X m1 m2 = Inl DuplicatePair"
    using s np ne by (auto simp add: createPairs_def)
next
  assume "registry_reachable r"
  then have i: "registry_invariant r" by (rule registry_reachable_invariant)
  then show "getPair r X Y = getPair r Y X" by (simp add: registry_invariant_def)
  from i show "one_pool_per_pair (registry_events r)" by (simp add: registry_invariant_def)
  from i show "allPairs r = map event_pool (registry_events r)"
    by (simp add: registry_invariant_def)
qed

theorem registry_unique_pairs_witness:
  "createPairs poolAB NebuSwap tokA tokA ''A'' ''A'' = Inl IdenticalAsset
   \<and> poolAB \<noteq> 0
   \<and> createPairs poolAB NebuSwap tokA tokB ''A'' ''B'' = Inr (poolAB, pool0, registry1)
   \<and> later registry1 registry2
   \<and> createPairs 8 registry2 tokA tokB ''A'' ''B'' = Inl DuplicatePair
   \<and> createPairs 8 registry2 tokB tokA ''B'' ''A'' = Inl DuplicatePair
   \<and> getPair registry2 tokA tokB = poolAB \<and> getPair registry2 tokB tokA = poolAB
   \<and> registry_reachable registry2
   \<and> one_pool_per_pair (registry_events registry2)
   \<and> allPairs registry2 = [poolAB, poolAC]"
proof -
  have ne: "poolAB \<noteq> 0" by (simp add: poolAB_def)
  note T = registry_unique_pairs
  from T [of poolAB NebuSwap tokA "''A''" "''A''"]
  have a: "createPairs poolAB NebuSwap tokA tokA ''A'' ''A'' = Inl IdenticalAsset" by blast
  from T [of poolAB NebuSwap tokA "''A''" "''B''" tokB poolAB pool0 registry1 registry2
      8 "''A''" "''B''"] ne create_AB later_registry2
  have b: "createPairs 8 registry2 tokA tokB ''A'' ''B'' = Inl DuplicatePair"
    "getPair registry2 tokA tokB = poolAB" "getPair registry2 tokB tokA = poolAB"
    by simp_all
  from T [of poolAB NebuSwap tokA "''A''" "''B''" tokB poolAB pool0 registry1 registry2
      8 "''B''" "''A''"] ne create_AB later_registry2
  have c: "createPairs 8 registry2 tokB tokA ''B'' ''A'' = Inl DuplicatePair" by simp
  from T [of _ registry2 _ _ _] reachable_registry2
  have d: "one_pool_per_pair (registry_events registry2)" by blast
  have e: "allPairs registry2 = [poolAB, poolAC]" by (simp add: registry2_def)
  from a ne create_AB later_registry2 b c reachable_registry2 d e show ?thesis by blast
qed


end
